theory Spec2Isabelle
  imports Main "HOL-Library.Word"
begin

section \<open>Data model of native-lib.cpp\<close>

text \<open>
  The backend keeps one session in global variables and talks to two file descriptors:
  the TCP socket \<open>sockfd\<close> and the tun device \<open>tunfd\<close>. The model keeps the globals
  in a record and makes the operating system explicit: what successive \<open>recv\<close>,
  \<open>send\<close> and \<open>read\<close> calls return is scripted in the state, and every call made
  on the socket is appended to a trace.
\<close>

type_synonym u8 = "8 word"
type_synonym u32 = "32 word"

text \<open>The parameters and message types (the \<open>#define\<close>s of the source).\<close>

abbreviation DATA_MAX_LENGTH :: nat where "DATA_MAX_LENGTH \<equiv> 4096"
abbreviation REQUEST_TIMEOUT_USEC :: u32 where "REQUEST_TIMEOUT_USEC \<equiv> 2000000"
abbreviation REQUEST_CHECK_INTERVAL_USEC :: u32 where "REQUEST_CHECK_INTERVAL_USEC \<equiv> 5000"
abbreviation RECONNECT_LIMIT :: "32 word" where "RECONNECT_LIMIT \<equiv> 3"

abbreviation IP_REQUEST :: u8 where "IP_REQUEST \<equiv> 100"
abbreviation IP_REPLY :: u8 where "IP_REPLY \<equiv> 101"
abbreviation NET_REQUEST :: u8 where "NET_REQUEST \<equiv> 102"
abbreviation NET_REPLY :: u8 where "NET_REPLY \<equiv> 103"
abbreviation HEARTBEAT :: u8 where "HEARTBEAT \<equiv> 104"

text \<open>
  \<open>struct Message { u32 length; u8 type; u8 data[4096]; }\<close>. The code sends and
  receives the struct through \<open>(u8 *) &message\<close>, so the model keeps its object
  representation: 4104 bytes, \<open>length\<close> in bytes 0 to 3 (least significant byte
  first, as on every Android ABI), \<open>type\<close> in byte 4, \<open>data\<close> in bytes 5 to 4100 and
  three bytes of tail padding. The fields are views of the bytes.
\<close>

type_synonym Message = "u8 list"

abbreviation sizeof_Message :: nat where "sizeof_Message \<equiv> 4104"

definition u32_bytes :: "u32 \<Rightarrow> u8 list" where
  "u32_bytes w =
     [of_nat (unat w mod 256), of_nat (unat w div 256 mod 256),
      of_nat (unat w div 65536 mod 256), of_nat (unat w div 16777216 mod 256)]"

definition bytes_u32 :: "u8 list \<Rightarrow> u32" where
  "bytes_u32 bs = of_nat (foldr (\<lambda>b n. unat b + 256 * n) bs 0)"

definition msg_length :: "Message \<Rightarrow> u32" where
  "msg_length m = bytes_u32 (take 4 m)"

definition msg_type :: "Message \<Rightarrow> u8" where
  "msg_type m = m ! 4"

definition msg_data :: "Message \<Rightarrow> u8 list" where
  "msg_data m = take DATA_MAX_LENGTH (drop 5 m)"

text \<open>Writing \<open>bs\<close> into a buffer at byte offset \<open>off\<close> (what \<open>recv\<close> and \<open>read\<close> do).\<close>

definition poke :: "u8 list \<Rightarrow> nat \<Rightarrow> u8 list \<Rightarrow> u8 list" where
  "poke buf off bs = take off buf @ bs @ drop (off + length bs) buf"

definition set_length :: "u32 \<Rightarrow> Message \<Rightarrow> Message" where
  "set_length w m = poke m 0 (u32_bytes w)"

definition set_type :: "u8 \<Rightarrow> Message \<Rightarrow> Message" where
  "set_type t m = poke m 4 [t]"

text \<open>\<open>memset(&message, 0, sizeof(message))\<close>.\<close>

definition zero_Message :: Message where
  "zero_Message = replicate sizeof_Message 0"

text \<open>
  The constant messages: \<open>{sizeof(u32) + sizeof(u8), IP_REQUEST}\<close> and
  \<open>{sizeof(u32) + sizeof(u8), HEARTBEAT}\<close>, the rest zero-initialised.
\<close>

definition ip_request :: Message where
  "ip_request = set_type IP_REQUEST (set_length 5 zero_Message)"

definition heartbeat :: Message where
  "heartbeat = set_type HEARTBEAT (set_length 5 zero_Message)"

text \<open>
  The payload a receiver takes out of a message, as \<open>recv_thread\<close> does:
  \<open>message.length - sizeof(u32) - sizeof(u8)\<close> bytes of \<open>message.data\<close>.
\<close>

definition msg_payload :: "Message \<Rightarrow> u8 list" where
  "msg_payload m = take (unat (msg_length m - 5)) (msg_data m)"

subsection \<open>The operating system, scripted\<close>

text \<open>
  What one \<open>recv\<close> on the socket observes: a negative result (the receive timeout
  or an error), zero bytes, or bytes that have arrived. A \<open>recv\<close> for \<open>n\<close> bytes
  takes at most \<open>n\<close> of them and leaves the rest for the next call. When the script is
  exhausted nothing more arrives, and every further \<open>recv\<close> times out.
\<close>

datatype recv_event = Timeout | NoData | Data "u8 list"

text \<open>
  What one \<open>send\<close> on the socket does: fail (\<open>-1\<close>), or transfer some of the bytes
  (never more than requested). With the script exhausted, a \<open>send\<close> transfers all.
\<close>

datatype send_event = SendFail | SendBytes nat

text \<open>
  What one \<open>read\<close> on the tun device returns: \<open>-1\<close>, or a packet (of which at most
  the requested count is copied).
\<close>

datatype tun_event = ReadFail | ReadBytes "u8 list"

text \<open>The calls made on the socket, each with the descriptor it was given.\<close>

datatype syscall = Send int "u8 list" int | Connect int | Shutdown int

record state =
  sockfd :: int
  tunfd :: int
  time_connected :: u32
  time_last_heartbeat :: u32
  time_send_heartbeat :: u32
  bytes_sent :: u32
  bytes_recv :: u32
  running :: bool
  ip_requesting :: bool
  inbound :: "recv_event list"
  send_script :: "send_event list"
  tun_in :: "tun_event list"
  trace :: "syscall list"

text \<open>The globals as the process starts with them, and an idle operating system.\<close>

definition initial_state :: state where
  "initial_state =
     \<lparr>sockfd = -1, tunfd = -1, time_connected = 0, time_last_heartbeat = 0,
      time_send_heartbeat = 0, bytes_sent = 0, bytes_recv = 0, running = False,
      ip_requesting = False, inbound = [], send_script = [], tun_in = [], trace = []\<rparr>"

text \<open>
  Undefined behaviour of the C++ code is a value of the model: a write past the end of
  the message buffer, a string read that finds no terminator inside it, \<open>%s\<close> given a
  null pointer, an array index out of range, a division by zero.
\<close>

datatype fault = BufferOverflow | Unterminated | NullString | OutOfBounds | DivideByZero

definition sock_recv :: "state \<Rightarrow> nat \<Rightarrow> int \<times> u8 list \<times> state" where
  "sock_recv s n =
     (case inbound s of
        [] \<Rightarrow> (-1, [], s)
      | Timeout # evs \<Rightarrow> (-1, [], s\<lparr>inbound := evs\<rparr>)
      | NoData # evs \<Rightarrow> (0, [], s\<lparr>inbound := evs\<rparr>)
      | Data bs # evs \<Rightarrow>
          (int (min n (length bs)), take n bs,
           s\<lparr>inbound := (if length bs \<le> n then evs else Data (drop n bs) # evs)\<rparr>))"

definition sock_send :: "state \<Rightarrow> u8 list \<Rightarrow> int \<times> state" where
  "sock_send s bs =
     (case (case send_script s of
              [] \<Rightarrow> (int (length bs), [])
            | SendFail # es \<Rightarrow> (-1, es)
            | SendBytes n # es \<Rightarrow> (int (min n (length bs)), es)) of
        (r, es) \<Rightarrow> (r, s\<lparr>send_script := es, trace := trace s @ [Send (sockfd s) bs r]\<rparr>))"

definition sock_connect :: "state \<Rightarrow> state" where
  "sock_connect s = s\<lparr>trace := trace s @ [Connect (sockfd s)]\<rparr>"

definition sock_shutdown :: "state \<Rightarrow> state" where
  "sock_shutdown s = s\<lparr>trace := trace s @ [Shutdown (sockfd s)]\<rparr>"

section \<open>Utilities: pretty time and size\<close>

text \<open>
  The loop of \<open>pretty\<close>: \<open>while (value > scale && count < m - 1)\<close>. It returns the
  scaled value and the unit index.
\<close>

function pretty_loop :: "u32 \<Rightarrow> u32 \<Rightarrow> int \<Rightarrow> int \<Rightarrow> fault + (u32 \<times> int)" where
  "pretty_loop v scale m count =
     (if scale < v \<and> count < m - 1
      then (if scale = 0 then Inl DivideByZero
            else pretty_loop (v div scale) scale m (count + 1))
      else Inr (v, count))"
  by pat_completeness auto
termination
  by (relation "measure (\<lambda>(v, scale, m, count). nat (m - 1 - count))") auto

declare pretty_loop.simps [simp del]

text \<open>\<open>%d\<close>: the decimal digits of a signed integer.\<close>

function show_nat :: "nat \<Rightarrow> string" where
  "show_nat n =
     (if n < 10 then [char_of (48 + n)]
      else show_nat (n div 10) @ [char_of (48 + n mod 10)])"
  by pat_completeness auto
termination
  by (relation "measure id") auto

declare show_nat.simps [simp del]

definition show_int :: "int \<Rightarrow> string" where
  "show_int i = (if i < 0 then CHR ''-'' # show_nat (nat (- i)) else show_nat (nat i))"

text \<open>
  \<open>sprintf(buffer, "%d %s\n", value, units[count])\<close>: the \<open>u32\<close> is printed as a
  signed \<open>int\<close>. An entry of \<open>units\<close> that the initialiser leaves out is a null
  pointer, here \<open>None\<close>.
\<close>

definition pretty :: "u32 \<Rightarrow> u32 \<Rightarrow> string option list \<Rightarrow> int \<Rightarrow> fault + string" where
  "pretty v scale units m =
     (case pretty_loop v scale m 0 of
        Inl f \<Rightarrow> Inl f
      | Inr (v', count) \<Rightarrow>
          if count < 0 \<or> int (length units) \<le> count then Inl OutOfBounds
          else (case units ! nat count of
                  None \<Rightarrow> Inl NullString
                | Some u \<Rightarrow> Inr (show_int (sint v') @ '' '' @ u @ [CHR 0x0A])))"

definition prettySize_units :: "string option list" where
  "prettySize_units = [Some ''Bytes'', Some ''KBytes'', Some ''MBytes'', Some ''GBytes'', None]"

definition prettySize :: "u32 \<Rightarrow> fault + string" where
  "prettySize sz = pretty sz 1024 prettySize_units 5"

definition prettyTime_units :: "string option list" where
  "prettyTime_units = [Some ''s'', Some ''min(s)'']"

definition prettyTime :: "u32 \<Rightarrow> fault + string" where
  "prettyTime t = pretty t 60 prettyTime_units 2"

section \<open>Raw send and the constant frames\<close>

text \<open>
  \<open>send_raw(ptr, length)\<close>. \<open>ptr\<close> is the memory at the pointer; \<open>int sent\<close> is
  compared with the \<open>u32 length\<close> as an unsigned value, so the model keeps it as a
  32-bit word and returns its signed reading.
\<close>

definition send_raw :: "state \<Rightarrow> u8 list \<Rightarrow> u32 \<Rightarrow> int \<times> state" where
  "send_raw s ptr len =
     (if \<not> running s \<and> \<not> ip_requesting s then (-1, s)
      else (case sock_send s (take (unat len) ptr) of
              (r, s1) \<Rightarrow>
                (let sent = (word_of_int r :: 32 word)
                 in if sent < len then (-1, s1) else (sint sent, s1))))"

definition send_heartbeat :: "state \<Rightarrow> int \<times> state" where
  "send_heartbeat s = send_raw s heartbeat (msg_length heartbeat)"

definition send_ip_request :: "state \<Rightarrow> int \<times> state" where
  "send_ip_request s = send_raw s ip_request (msg_length ip_request)"

section \<open>The supervisor tick\<close>

text \<open>The status report of \<open>tik\<close>: three pretty-printed counters.\<close>

definition status_report :: "state \<Rightarrow> fault + string" where
  "status_report s =
     (case prettySize (bytes_sent s) of
        Inl f \<Rightarrow> Inl f
      | Inr a \<Rightarrow>
          (case prettySize (bytes_recv s) of
             Inl f \<Rightarrow> Inl f
           | Inr b \<Rightarrow>
               (case prettyTime (time_connected s) of
                  Inl f \<Rightarrow> Inl f
                | Inr c \<Rightarrow>
                    Inr (''Sent: '' @ a @ [CHR 0x0A] @ ''Received: '' @ b @ [CHR 0x0A]
                         @ ''Time connected: '' @ c))))"

text \<open>
  \<open>Java_com_lyricz_a4over6vpn_VPNService_tik\<close>: the returned string (or the fault of
  building it) and the globals after the call.
\<close>

definition tik :: "state \<Rightarrow> (fault + string) \<times> state" where
  "tik s =
     (if sockfd s = -1 \<or> \<not> running s then (Inr [], s)
      else
        (let s1 = s\<lparr>time_connected := time_connected s + 1\<rparr>
         in if 60 < time_connected s1 - time_last_heartbeat s1
            then (Inr [], s1\<lparr>running := False\<rparr>)
            else
              (let s2 = s1\<lparr>time_send_heartbeat := time_send_heartbeat s1 + 1\<rparr>;
                   s3 = (if time_send_heartbeat s2 = 20
                         then snd (send_heartbeat (s2\<lparr>time_send_heartbeat := 0\<rparr>))
                         else s2)
               in (status_report s3, s3))))"

section \<open>Raw receive and message decoding\<close>

text \<open>The recv calls and bytes still scripted (the measure of the receive loop).\<close>

fun pending :: "recv_event list \<Rightarrow> nat" where
  "pending [] = 0"
| "pending (Data bs # evs) = Suc (length bs) + pending evs"
| "pending (ev # evs) = Suc (pending evs)"

text \<open>
  The loop of \<open>recv_raw(buffer, length)\<close>. The model's \<open>buffer\<close> is the whole object
  the pointer points into and \<open>off\<close> the pointer's offset in it, so that a \<open>recv\<close>
  that would write past the object is seen: it is the fault \<open>BufferOverflow\<close>. The
  count \<open>received\<close> never exceeds the object's size on a run without that fault, so
  the \<open>int\<close> of the source cannot overflow and is a natural number here;
  \<open>times_retry\<close> is a 32-bit \<open>int\<close> only ever compared for equality.
\<close>

function recv_raw_loop ::
  "state \<Rightarrow> u8 list \<Rightarrow> nat \<Rightarrow> u32 \<Rightarrow> nat \<Rightarrow> 32 word \<Rightarrow> fault + (nat \<times> u8 list \<times> state)" where
  "recv_raw_loop s buffer off len received times_retry =
     (if (running s \<or> ip_requesting s) \<and> received < unat len
      then (case sock_recv s (unat len - received) of
              (single, bs, s1) \<Rightarrow>
                if single < 0
                then (if times_retry + 1 = RECONNECT_LIMIT then Inr (received, buffer, s1)
                      else recv_raw_loop (sock_connect s1) buffer off len received
                             (times_retry + 1))
                else if single = 0 then recv_raw_loop s1 buffer off len received 0
                else if length buffer < off + received + nat single then Inl BufferOverflow
                else recv_raw_loop s1 (poke buffer (off + received) bs) off len
                       (received + nat single) 0)
      else Inr (received, buffer, s))"
  by pat_completeness auto
termination
proof (relation "measures [\<lambda>(s, buffer, off, len, received, times_retry). pending (inbound s),
                           \<lambda>(s, buffer, off, len, received, times_retry). unat (2 - times_retry)]",
       goal_cases)
  case 1
  show ?case by simp
next
  case (2 s buffer off len received times_retry single rest bs s1)
  have gen: "unat (w - 1) < unat w" if "w \<noteq> 0" for w :: "32 word"
    using that by (simp add: unat_minus_one unat_gt_0)
  have ne: "2 - times_retry \<noteq> 0" using 2(5) by (auto simp: algebra_simps)
  have eq: "2 - (times_retry + 1) = (2 - times_retry) - 1" by simp
  have "unat (2 - (times_retry + 1)) < unat (2 - times_retry)"
    by (subst eq) (rule gen [OF ne])
  with 2 show ?case
    by (auto simp: sock_recv_def sock_connect_def split: list.splits recv_event.splits)
next
  case 3
  then show ?case
    by (auto simp: sock_recv_def split: list.splits recv_event.splits if_splits)
next
  case 4
  then show ?case
    by (auto simp: sock_recv_def split: list.splits recv_event.splits if_splits)
qed

declare recv_raw_loop.simps [simp del]

definition recv_raw :: "state \<Rightarrow> u8 list \<Rightarrow> nat \<Rightarrow> u32 \<Rightarrow> fault + (nat \<times> u8 list \<times> state)" where
  "recv_raw s buffer off len = recv_raw_loop s buffer off len 0 0"

text \<open>
  \<open>recv_message(message)\<close>: the length field first, then \<open>message.length - 4\<close> more
  bytes behind it. The result is the returned flag, the message buffer and the state.
\<close>

definition recv_message :: "state \<Rightarrow> Message \<Rightarrow> fault + (bool \<times> Message \<times> state)" where
  "recv_message s message =
     (case recv_raw s message 0 4 of
        Inl f \<Rightarrow> Inl f
      | Inr (size1, message1, s1) \<Rightarrow>
          if size1 < 4 \<or> \<not> running s1 then Inr (False, message1, s1)
          else (case recv_raw s1 message1 4 (msg_length message1 - 4) of
                  Inl f \<Rightarrow> Inl f
                | Inr (size2, message2, s2) \<Rightarrow>
                    Inr (size2 + 4 = unat (msg_length message2), message2, s2)))"

section \<open>Requesting an address\<close>

text \<open>
  \<open>NewStringUTF((const char *) message.data)\<close> reads up to the first zero byte;
  \<open>mem\<close> is the memory from the pointer to the end of the object.
\<close>

definition c_string :: "u8 list \<Rightarrow> fault + u8 list" where
  "c_string mem = (if 0 \<in> set mem then Inr (takeWhile (\<lambda>b. b \<noteq> 0) mem) else Inl Unterminated)"

text \<open>
  The polling loop of \<open>request\<close>. \<open>Some str\<close> is the \<open>return\<close> inside the loop
  (an \<open>IP_REPLY\<close> was decoded), \<open>None\<close> is leaving the loop: \<open>recv_message\<close>
  failed, or \<open>elapsed\<close> reached the timeout.
\<close>

function request_loop ::
  "state \<Rightarrow> Message \<Rightarrow> u32 \<Rightarrow> fault + (u8 list option \<times> Message \<times> state)" where
  "request_loop s message elapsed =
     (if elapsed < REQUEST_TIMEOUT_USEC
      then (case recv_message s message of
              Inl f \<Rightarrow> Inl f
            | Inr (ok, message1, s1) \<Rightarrow>
                if \<not> ok then Inr (None, message1, s1)
                else if msg_type message1 = IP_REPLY
                then (case c_string (drop 5 message1) of
                        Inl f \<Rightarrow> Inl f
                      | Inr str \<Rightarrow> Inr (Some str, message1, s1\<lparr>ip_requesting := False\<rparr>))
                else request_loop s1 message1 (elapsed + REQUEST_CHECK_INTERVAL_USEC))
      else Inr (None, message, s))"
  by pat_completeness auto
termination
proof (relation "measure (\<lambda>(s, message, elapsed). 2005000 - unat elapsed)", goal_cases)
  case 1
  show ?case by simp
next
  case (2 s message elapsed x ok y message1 s1)
  from 2(1) have "unat elapsed < 2000000" by (simp add: word_less_nat_alt)
  then have "unat (elapsed + 5000) = unat elapsed + 5000"
    by (simp add: unat_word_ariths)
  then show ?case using \<open>unat elapsed < 2000000\<close> by simp
qed

declare request_loop.simps [simp del]

text \<open>
  \<open>Java_com_lyricz_a4over6vpn_VPNService_request\<close>. \<open>message\<close> is what the
  uninitialised local variable holds on entry.
\<close>

definition request :: "state \<Rightarrow> Message \<Rightarrow> fault + (u8 list \<times> state)" where
  "request s message =
     (if sockfd s = -1 then Inr ([], s)
      else (case request_loop (snd (send_ip_request (s\<lparr>ip_requesting := True\<rparr>))) message 0 of
              Inl f \<Rightarrow> Inl f
            | Inr (Some str, message1, s1) \<Rightarrow> Inr (str, s1)
            | Inr (None, message1, s1) \<Rightarrow>
                Inr ([], (sock_shutdown (s1\<lparr>ip_requesting := False\<rparr>))\<lparr>sockfd := -1\<rparr>)))"

section \<open>The sender thread\<close>

definition tun_read :: "tun_event \<Rightarrow> nat \<Rightarrow> int \<times> u8 list" where
  "tun_read ev n =
     (case ev of
        ReadFail \<Rightarrow> (-1, [])
      | ReadBytes bs \<Rightarrow> (int (min n (length bs)), take n bs))"

text \<open>
  One pass through the body of the loop of \<open>send_thread\<close>, given what \<open>read\<close> on the
  tun device returns. The result of \<open>read\<close> is stored in a \<open>u32\<close>.
\<close>

definition send_thread_body :: "state \<Rightarrow> tun_event \<Rightarrow> state" where
  "send_thread_body s ev =
     (case tun_read ev DATA_MAX_LENGTH of
        (r, bs) \<Rightarrow>
          (let message = poke zero_Message 5 bs;
               len = (word_of_int r :: u32)
           in if 0 < len
              then (let message1 = set_length (len + 5) message;
                        message2 = set_type NET_REQUEST message1;
                        s1 = snd (send_raw s message2 (msg_length message2))
                    in s1\<lparr>bytes_sent := bytes_sent s1 + msg_length message2\<rparr>)
              else s))"

text \<open>
  The loop \<open>while (running)\<close>. Nothing in the loop clears \<open>running\<close>; when the tun
  script is exhausted the thread blocks in \<open>read\<close> and does not return: \<open>None\<close>.
\<close>

function send_thread :: "state \<Rightarrow> state option" where
  "send_thread s =
     (if running s
      then (case tun_in s of
              [] \<Rightarrow> None
            | ev # evs \<Rightarrow> send_thread (send_thread_body (s\<lparr>tun_in := evs\<rparr>) ev))
      else Some s)"
  by pat_completeness auto
termination
proof (relation "measure (\<lambda>s. length (tun_in s))", goal_cases)
  case 1
  show ?case by simp
next
  case (2 s ev evs)
  have "tun_in (send_thread_body (s\<lparr>tun_in := evs\<rparr>) ev) = evs"
    by (simp add: send_thread_body_def send_raw_def sock_send_def Let_def
             split: prod.splits list.splits send_event.splits)
  with 2 show ?case by simp
qed

declare send_thread.simps [simp del]

text \<open>\<open>Java_com_lyricz_a4over6vpn_VPNService_terminate\<close>.\<close>

definition terminate :: "state \<Rightarrow> state" where
  "terminate s = s\<lparr>running := False\<rparr>"

text \<open>
  The bytes of one frame on the wire: the total length, the type, the payload. This is
  what \<open>send_thread\<close> hands to \<open>send\<close> for a packet (lemma \<open>send_thread_body_frame\<close>)
  and what the constant messages are (lemma \<open>heartbeat_frame\<close>).
\<close>

definition frame :: "u8 \<Rightarrow> u8 list \<Rightarrow> u8 list" where
  "frame ty payload = u32_bytes (of_nat (length payload) + 5) @ [ty] @ payload"

text \<open>Two states with the same globals; the operating system's side may differ.\<close>

definition same_session :: "state \<Rightarrow> state \<Rightarrow> bool" where
  "same_session s s' =
     (sockfd s' = sockfd s \<and> running s' = running s \<and> ip_requesting s' = ip_requesting s
      \<and> time_connected s' = time_connected s \<and> time_last_heartbeat s' = time_last_heartbeat s
      \<and> time_send_heartbeat s' = time_send_heartbeat s \<and> bytes_sent s' = bytes_sent s
      \<and> bytes_recv s' = bytes_recv s \<and> tunfd s' = tunfd s)"

section \<open>Running the supervisor\<close>

text \<open>
  The \<open>send\<close> calls in a trace that carry a heartbeat frame, a tick that finds the
  session active and not stale, and a run of ticks: after each tick the other threads
  (and the peer) do something, \<open>e\<close>, to the state. Whatever they do, they do not write
  \<open>time_send_heartbeat\<close>, which only \<open>tik\<close> and \<open>open\<close> assign, and they send no
  heartbeat frame, which only \<open>tik\<close> does.
\<close>

definition heartbeat_sends :: "syscall list \<Rightarrow> nat" where
  "heartbeat_sends calls =
     length (filter (\<lambda>c. case c of Send fd bs r \<Rightarrow> bs = frame HEARTBEAT [] | _ \<Rightarrow> False) calls)"

definition tick_live :: "state \<Rightarrow> bool" where
  "tick_live s =
     (sockfd s \<noteq> -1 \<and> running s \<and> \<not> 60 < time_connected s + 1 - time_last_heartbeat s)"

definition other_traffic :: "(state \<Rightarrow> state) \<Rightarrow> bool" where
  "other_traffic e =
     (\<forall>s. time_send_heartbeat (e s) = time_send_heartbeat s
          \<and> heartbeat_sends (trace (e s)) = heartbeat_sends (trace s))"

fun run_ticks :: "(state \<Rightarrow> state) list \<Rightarrow> state \<Rightarrow> state" where
  "run_ticks [] s = s"
| "run_ticks (e # es) s = run_ticks es (e (snd (tik s)))"

fun live_run :: "(state \<Rightarrow> state) list \<Rightarrow> state \<Rightarrow> bool" where
  "live_run [] s = True"
| "live_run (e # es) s = (tick_live s \<and> live_run es (e (snd (tik s))))"

section \<open>Properties of the pretty printer\<close>

lemma pretty_loop_stop:
  "\<not> (scale < v \<and> count < m - 1) \<Longrightarrow> pretty_loop v scale m count = Inr (v, count)"
  by (subst pretty_loop.simps) auto

lemma pretty_loop_step:
  "scale < v \<Longrightarrow> count < m - 1 \<Longrightarrow> scale \<noteq> 0 \<Longrightarrow>
   pretty_loop v scale m count = pretty_loop (v div scale) scale m (count + 1)"
  by (subst pretty_loop.simps) simp

lemma pretty_loop_1024:
  "\<exists>v c. pretty_loop sz 1024 5 0 = Inr (v, c) \<and> 0 \<le> c \<and> c \<le> 3 \<and> v \<le> 1024
      \<and> unat v = unat sz div 1024 ^ nat c"
proof -
  have b: "unat sz < 4294967296" using unsigned_less [of sz, where ?'a = nat] by simp
  have d1: "unat (sz div 1024) = unat sz div 1024" by (simp add: unat_div)
  have d2: "unat (sz div 1024 div 1024) = unat sz div (1024 ^ 2)"
    by (simp add: unat_div div_mult2_eq)
  have d3: "unat (sz div 1024 div 1024 div 1024) = unat sz div (1024 ^ 3)"
    by (simp add: unat_div div_mult2_eq)
  have small: "unat sz div (1024 ^ 3) \<le> 1024" using b by simp
  have le3: "sz div 1024 div 1024 div 1024 \<le> 1024"
    using small d3 by (simp add: word_le_nat_alt)
  show ?thesis
  proof (cases "1024 < sz")
    case False
    then show ?thesis by (simp add: pretty_loop_stop not_less)
  next
    case a: True
    show ?thesis
    proof (cases "1024 < sz div 1024")
      case False
      with a show ?thesis
        by (simp add: pretty_loop_step pretty_loop_stop not_less d1)
    next
      case b: True
      show ?thesis
      proof (cases "1024 < sz div 1024 div 1024")
        case False
        with a b show ?thesis
          by (simp add: pretty_loop_step pretty_loop_stop not_less d2)
      next
        case c: True
        have "\<not> 1024 < sz div 1024 div 1024 div 1024" using le3 by (simp add: not_less)
        with a b c show ?thesis
          by (simp add: pretty_loop_step pretty_loop_stop d3 le3)
      qed
    qed
  qed
qed

lemma prettySize_total: "\<exists>str. prettySize sz = Inr str \<and> str \<noteq> []"
proof -
  obtain v c where h: "pretty_loop sz 1024 5 0 = Inr (v, c)" "0 \<le> c" "c \<le> 3"
    using pretty_loop_1024 [of sz] by blast
  then have "nat c \<in> {0, 1, 2, 3}" by auto
  then show ?thesis using h
    by (auto simp: prettySize_def pretty_def prettySize_units_def)
qed

lemma prettyTime_total: "\<exists>str. prettyTime t = Inr str \<and> str \<noteq> []"
proof (cases "60 < t")
  case False
  then show ?thesis
    by (simp add: prettyTime_def pretty_def prettyTime_units_def pretty_loop_stop)
next
  case True
  then show ?thesis
    by (simp add: prettyTime_def pretty_def prettyTime_units_def pretty_loop_step pretty_loop_stop)
qed

lemma status_report_total: "\<exists>str. status_report s = Inr str \<and> str \<noteq> []"
proof -
  obtain a where a: "prettySize (bytes_sent s) = Inr a" using prettySize_total by blast
  obtain b where b: "prettySize (bytes_recv s) = Inr b" using prettySize_total by blast
  obtain c where c: "prettyTime (time_connected s) = Inr c" using prettyTime_total by blast
  show ?thesis by (simp add: status_report_def a b c)
qed

section \<open>Properties of sending and of the tick\<close>

lemma u32_bytes_5: "u32_bytes 5 = [5, 0, 0, 0]"
  by (simp add: u32_bytes_def)

lemma bytes_u32_5: "bytes_u32 [5, 0, 0, 0] = 5"
  by (simp add: bytes_u32_def)

lemma msg_length_heartbeat: "msg_length heartbeat = 5"
  by (simp add: msg_length_def heartbeat_def set_type_def set_length_def poke_def
        zero_Message_def u32_bytes_5 bytes_u32_5)

lemma heartbeat_frame: "take (unat (msg_length heartbeat)) heartbeat = frame HEARTBEAT []"
  by (simp add: msg_length_heartbeat)
     (simp add: heartbeat_def set_type_def set_length_def poke_def zero_Message_def
        u32_bytes_5 frame_def)

lemma msg_length_ip_request: "msg_length ip_request = 5"
  by (simp add: msg_length_def ip_request_def set_type_def set_length_def poke_def
        zero_Message_def u32_bytes_5 bytes_u32_5)

lemma ip_request_frame: "take (unat (msg_length ip_request)) ip_request = frame IP_REQUEST []"
  by (simp add: msg_length_ip_request)
     (simp add: ip_request_def set_type_def set_length_def poke_def zero_Message_def
        u32_bytes_5 frame_def)

lemma send_raw_inactive:
  "\<not> running s \<Longrightarrow> \<not> ip_requesting s \<Longrightarrow> send_raw s ptr len = (-1, s)"
  by (simp add: send_raw_def)

lemma sock_send_snd:
  "snd (sock_send s bs) =
     s\<lparr>send_script := tl (send_script s),
       trace := trace s @ [Send (sockfd s) bs (fst (sock_send s bs))]\<rparr>"
  by (simp add: sock_send_def split: list.split send_event.split)

lemma send_raw_snd:
  "running s \<or> ip_requesting s \<Longrightarrow>
   snd (send_raw s ptr len) = snd (sock_send s (take (unat len) ptr))"
  by (auto simp: send_raw_def Let_def split: prod.split)

lemma send_raw_active:
  "running s \<or> ip_requesting s \<Longrightarrow>
   \<exists>r es. snd (send_raw s ptr len) =
     s\<lparr>send_script := es, trace := trace s @ [Send (sockfd s) (take (unat len) ptr) r]\<rparr>"
  using send_raw_snd [of s ptr len] sock_send_snd [of s "take (unat len) ptr"] by metis

lemma tik_inactive: "sockfd s = -1 \<or> \<not> running s \<Longrightarrow> tik s = (Inr [], s)"
  by (auto simp: tik_def)

lemma tik_stale:
  "sockfd s \<noteq> -1 \<Longrightarrow> running s \<Longrightarrow> 60 < time_connected s + 1 - time_last_heartbeat s \<Longrightarrow>
   tik s = (Inr [], s\<lparr>time_connected := time_connected s + 1, running := False\<rparr>)"
  by (simp add: tik_def Let_def)

lemma tik_live_quiet:
  "tick_live s \<Longrightarrow> time_send_heartbeat s + 1 \<noteq> 20 \<Longrightarrow>
   snd (tik s) = s\<lparr>time_connected := time_connected s + 1,
                    time_send_heartbeat := time_send_heartbeat s + 1\<rparr>"
  by (simp add: tik_def tick_live_def Let_def)

lemma tik_live_beat:
  "tick_live s \<Longrightarrow> time_send_heartbeat s + 1 = 20 \<Longrightarrow>
   \<exists>r es. snd (tik s) =
     s\<lparr>time_connected := time_connected s + 1, time_send_heartbeat := 0,
       send_script := es,
       trace := trace s @ [Send (sockfd s) (frame HEARTBEAT []) r]\<rparr>"
proof -
  assume live: "tick_live s" and t: "time_send_heartbeat s + 1 = 20"
  let ?s = "s\<lparr>time_connected := time_connected s + 1, time_send_heartbeat := 0\<rparr>"
  have "running ?s \<or> ip_requesting ?s" using live by (simp add: tick_live_def)
  from send_raw_active [OF this, of heartbeat "msg_length heartbeat"]
  obtain r es where
    "snd (send_heartbeat ?s) =
       ?s\<lparr>send_script := es, trace := trace ?s @ [Send (sockfd ?s) (frame HEARTBEAT []) r]\<rparr>"
    by (auto simp: send_heartbeat_def heartbeat_frame)
  then have "snd (tik s) =
      s\<lparr>time_connected := time_connected s + 1, time_send_heartbeat := 0,
        send_script := es,
        trace := trace s @ [Send (sockfd s) (frame HEARTBEAT []) r]\<rparr>"
    using live t by (simp add: tik_def tick_live_def Let_def)
  then show ?thesis by blast
qed

lemma tik_fst_live:
  "tick_live s \<Longrightarrow> fst (tik s) = status_report (snd (tik s))"
  by (simp add: tik_def tick_live_def Let_def)


lemma heartbeat_sends_append:
  "heartbeat_sends (xs @ ys) = heartbeat_sends xs + heartbeat_sends ys"
  by (simp add: heartbeat_sends_def)

lemma tik_live_counts:
  assumes "tick_live s" and "unat (time_send_heartbeat s) < 20"
  shows "unat (time_send_heartbeat (snd (tik s))) = (unat (time_send_heartbeat s) + 1) mod 20"
    and "heartbeat_sends (trace (snd (tik s))) =
           heartbeat_sends (trace s) + (unat (time_send_heartbeat s) + 1) div 20"
proof -
  have u: "unat (time_send_heartbeat s + 1) = unat (time_send_heartbeat s) + 1"
    using assms(2) by (simp add: unat_word_ariths)
  show "unat (time_send_heartbeat (snd (tik s))) = (unat (time_send_heartbeat s) + 1) mod 20"
  proof (cases "time_send_heartbeat s + 1 = 20")
    case True
    then have "unat (time_send_heartbeat s) + 1 = 20" using u by simp
    moreover obtain r es where "snd (tik s) =
       s\<lparr>time_connected := time_connected s + 1, time_send_heartbeat := 0,
         send_script := es, trace := trace s @ [Send (sockfd s) (frame HEARTBEAT []) r]\<rparr>"
      using tik_live_beat [OF assms(1) True] by blast
    ultimately show ?thesis by simp
  next
    case False
    then have "unat (time_send_heartbeat s + 1) \<noteq> unat (20 :: 32 word)"
      by (simp only: word_unat_eq_iff [symmetric] not_False_eq_True)
    then have "unat (time_send_heartbeat s) + 1 \<noteq> 20" using u by simp
    then have "unat (time_send_heartbeat s) + 1 < 20" using assms(2) by simp
    then show ?thesis using tik_live_quiet [OF assms(1) False] u by simp
  qed
  show "heartbeat_sends (trace (snd (tik s))) =
           heartbeat_sends (trace s) + (unat (time_send_heartbeat s) + 1) div 20"
  proof (cases "time_send_heartbeat s + 1 = 20")
    case True
    then have "unat (time_send_heartbeat s) + 1 = 20" using u by simp
    moreover obtain r es where "snd (tik s) =
       s\<lparr>time_connected := time_connected s + 1, time_send_heartbeat := 0,
         send_script := es, trace := trace s @ [Send (sockfd s) (frame HEARTBEAT []) r]\<rparr>"
      using tik_live_beat [OF assms(1) True] by blast
    ultimately show ?thesis by (simp add: heartbeat_sends_def)
  next
    case False
    then have "unat (time_send_heartbeat s + 1) \<noteq> unat (20 :: 32 word)"
      by (simp only: word_unat_eq_iff [symmetric] not_False_eq_True)
    then have "unat (time_send_heartbeat s) + 1 \<noteq> 20" using u by simp
    then have "unat (time_send_heartbeat s) + 1 < 20" using assms(2) by simp
    then show ?thesis using tik_live_quiet [OF assms(1) False] by simp
  qed
qed

lemma run_ticks_counts:
  "\<forall>e \<in> set es. other_traffic e \<Longrightarrow> live_run es s \<Longrightarrow> unat (time_send_heartbeat s) < 20 \<Longrightarrow>
   unat (time_send_heartbeat (run_ticks es s)) = (unat (time_send_heartbeat s) + length es) mod 20
   \<and> heartbeat_sends (trace (run_ticks es s)) =
       heartbeat_sends (trace s) + (unat (time_send_heartbeat s) + length es) div 20"
proof (induction es arbitrary: s)
  case Nil
  then show ?case by simp
next
  case (Cons e es)
  let ?t = "e (snd (tik s))"
  have live: "tick_live s" and rest: "live_run es ?t" using Cons.prems(2) by simp_all
  have tr: "other_traffic e" using Cons.prems(1) by simp
  have c: "unat (time_send_heartbeat ?t) = (unat (time_send_heartbeat s) + 1) mod 20"
    using tik_live_counts(1) [OF live Cons.prems(3)] tr by (simp add: other_traffic_def)
  have h: "heartbeat_sends (trace ?t) =
      heartbeat_sends (trace s) + (unat (time_send_heartbeat s) + 1) div 20"
    using tik_live_counts(2) [OF live Cons.prems(3)] tr by (simp add: other_traffic_def)
  have lt: "unat (time_send_heartbeat ?t) < 20" using c by simp
  have ih: "unat (time_send_heartbeat (run_ticks es ?t)) =
        (unat (time_send_heartbeat ?t) + length es) mod 20
      \<and> heartbeat_sends (trace (run_ticks es ?t)) =
        heartbeat_sends (trace ?t) + (unat (time_send_heartbeat ?t) + length es) div 20"
    using Cons.IH [OF _ rest lt] Cons.prems(1) by simp
  define a where "a = unat (time_send_heartbeat s)"
  have m: "((a + 1) mod 20 + length es) mod 20 = (a + Suc (length es)) mod 20"
    by (simp add: mod_simps)
  have d: "(a + 1) div 20 + ((a + 1) mod 20 + length es) div 20 = (a + Suc (length es)) div 20"
  proof -
    define x where "x = a + 1"
    have "(x + length es) div 20 = (20 * (x div 20) + (x mod 20 + length es)) div 20"
      by (simp add: add.assoc [symmetric])
    also have "\<dots> = x div 20 + (x mod 20 + length es) div 20"
      by (rule div_mult_self4) simp
    finally show ?thesis by (simp add: x_def)
  qed
  show ?case using ih c h m d by (simp add: a_def)
qed

lemma send_raw_fields:
  "sockfd (snd (send_raw s ptr len)) = sockfd s"
  "running (snd (send_raw s ptr len)) = running s"
  "ip_requesting (snd (send_raw s ptr len)) = ip_requesting s"
  "inbound (snd (send_raw s ptr len)) = inbound s"
  "time_connected (snd (send_raw s ptr len)) = time_connected s"
  "time_last_heartbeat (snd (send_raw s ptr len)) = time_last_heartbeat s"
  by (cases "running s \<or> ip_requesting s";
      simp add: send_raw_snd sock_send_snd send_raw_inactive)+

lemma sock_send_range:
  "fst (sock_send s bs) = -1 \<or> (0 \<le> fst (sock_send s bs) \<and> fst (sock_send s bs) \<le> int (length bs))"
  by (simp add: sock_send_def split: list.split send_event.split)

lemma send_raw_short:
  assumes act: "running s \<or> ip_requesting s"
    and short: "fst (sock_send s (take (unat len) ptr)) < int (unat len)"
  shows "fst (send_raw s ptr len) = -1"
proof -
  let ?r = "fst (sock_send s (take (unat len) ptr))"
  have eq: "sock_send s (take (unat len) ptr) = (?r, snd (sock_send s (take (unat len) ptr)))"
    by simp
  consider "?r = -1" | "0 \<le> ?r" "?r < int (unat len)"
    using sock_send_range [of s "take (unat len) ptr"] short by auto
  then show ?thesis
  proof cases
    case 1
    have "\<not> (word_of_int (-1) :: 32 word) < len" by simp
    then show ?thesis using act 1
      by (simp add: send_raw_def Let_def case_prod_beta)
  next
    case 2
    have "unat (word_of_int ?r :: 32 word) = nat ?r"
    proof -
      have "nat ?r < unat len" using 2 by (simp add: nat_less_iff)
      then have "nat ?r < 2 ^ 32" using unsigned_less [of len, where ?'a = nat] by simp
      then have "unat (of_nat (nat ?r) :: 32 word) = nat ?r" by (simp add: unat_of_nat)
      moreover have "(of_nat (nat ?r) :: 32 word) = word_of_int ?r"
        using 2(1) by (simp add: of_nat_nat)
      ultimately show ?thesis by simp
    qed
    moreover have "nat ?r < unat len" using 2 by (simp add: nat_less_iff)
    ultimately have "(word_of_int ?r :: 32 word) < len" by (simp add: word_less_nat_alt)
    then show ?thesis using act
      by (simp add: send_raw_def Let_def case_prod_beta)
  qed
qed


lemma tik_live_fields:
  assumes "tick_live s"
  shows "running (snd (tik s))" and "sockfd (snd (tik s)) = sockfd s"
    and "time_connected (snd (tik s)) = time_connected s + 1"
    and "time_last_heartbeat (snd (tik s)) = time_last_heartbeat s"
proof -
  have r: "running s" using assms by (simp add: tick_live_def)
  show "running (snd (tik s))"
  proof (cases "time_send_heartbeat s + 1 = 20")
    case True
    then show ?thesis using tik_live_beat [OF assms True] r by auto
  next
    case False
    then show ?thesis using tik_live_quiet [OF assms False] r by simp
  qed
  show "sockfd (snd (tik s)) = sockfd s"
  proof (cases "time_send_heartbeat s + 1 = 20")
    case True
    then show ?thesis using tik_live_beat [OF assms True] by auto
  next
    case False
    then show ?thesis using tik_live_quiet [OF assms False] by simp
  qed
  show "time_connected (snd (tik s)) = time_connected s + 1"
  proof (cases "time_send_heartbeat s + 1 = 20")
    case True
    then show ?thesis using tik_live_beat [OF assms True] by auto
  next
    case False
    then show ?thesis using tik_live_quiet [OF assms False] by simp
  qed
  show "time_last_heartbeat (snd (tik s)) = time_last_heartbeat s"
  proof (cases "time_send_heartbeat s + 1 = 20")
    case True
    then show ?thesis using tik_live_beat [OF assms True] by auto
  next
    case False
    then show ?thesis using tik_live_quiet [OF assms False] by simp
  qed
qed

lemma live_run_heartbeats:
  "sockfd s \<noteq> -1 \<Longrightarrow> running s \<Longrightarrow> time_last_heartbeat s = time_connected s \<Longrightarrow>
   live_run (replicate n (\<lambda>s. s\<lparr>time_last_heartbeat := time_connected s\<rparr>)) s"
proof (induction n arbitrary: s)
  case 0
  then show ?case by simp
next
  case (Suc n)
  have live: "tick_live s" using Suc.prems by (simp add: tick_live_def)
  show ?case
    using live tik_live_fields [OF live] Suc.prems
    by (simp add: Suc.IH)
qed

lemma tik_keeps_counter_below_20:
  assumes "unat (time_send_heartbeat s) < 20"
  shows "unat (time_send_heartbeat (snd (tik s))) < 20"
proof (cases "tick_live s")
  case True
  then show ?thesis using tik_live_counts(1) [OF True assms] by simp
next
  case False
  then consider "sockfd s = -1 \<or> \<not> running s"
    | "sockfd s \<noteq> -1" "running s" "60 < time_connected s + 1 - time_last_heartbeat s"
    by (auto simp: tick_live_def)
  then show ?thesis
  proof cases
    case 1
    then show ?thesis using assms by (simp add: tik_inactive)
  next
    case 2
    then show ?thesis using assms by (simp add: tik_stale)
  qed
qed

text \<open>
  Claim C8. \<open>send_raw\<close> returns \<open>-1\<close> and makes no call when neither \<open>running\<close> nor
  \<open>ip_requesting\<close> is set. With a session active it makes exactly one \<open>send\<close>, and
  when that transfers fewer bytes than requested (a failure \<open>-1\<close> included) it returns
  \<open>-1\<close>: the state after \<open>send_raw\<close> is the state after that one \<open>send\<close>, so
  nothing is retried.
\<close>
theorem send_raw_rejects_idle_and_short_write:
  "(\<not> running s \<and> \<not> ip_requesting s \<longrightarrow> send_raw s ptr len = (-1, s))
   \<and> ((running s \<or> ip_requesting s)
        \<and> fst (sock_send s (take (unat len) ptr)) < int (unat len)
       \<longrightarrow> fst (send_raw s ptr len) = -1
           \<and> snd (send_raw s ptr len) = snd (sock_send s (take (unat len) ptr)))"
  using send_raw_inactive [of s ptr len] send_raw_short [of s len ptr]
    send_raw_snd [of s ptr len]
  by blast

text \<open>
  The two cases at concrete inputs: no session at all, and a running session whose
  \<open>send\<close> transfers 2 of the 5 bytes of a heartbeat.
\<close>

theorem send_raw_rejects_idle_and_short_write_witness:
  "send_raw initial_state heartbeat 5 = (-1, initial_state)
   \<and> fst (send_raw (initial_state\<lparr>sockfd := 3, running := True, send_script := [SendBytes 2]\<rparr>)
            heartbeat 5) = -1"
  using send_raw_rejects_idle_and_short_write [of initial_state heartbeat 5]
    send_raw_rejects_idle_and_short_write
      [of "initial_state\<lparr>sockfd := 3, running := True, send_script := [SendBytes 2]\<rparr>"
          heartbeat 5]
  by (simp add: initial_state_def sock_send_def)

text \<open>
  Claim C9. For every 32-bit byte count the loop of \<open>pretty\<close>, called by
  \<open>prettySize\<close> with scale 1024 and bound 5, stops with a unit index between 0 and 3
  and a value of at most 1024: the value is the count divided by 1024 once per index
  step, so at most three times. The entry of the unit array at that index is one of the
  four names, never the fifth, null entry, and \<open>prettySize\<close> returns a string.
\<close>
theorem prettySize_unit_index_bounded:
  "\<exists>v c. pretty_loop sz 1024 5 0 = Inr (v, c) \<and> 0 \<le> c \<and> c \<le> 3 \<and> v \<le> 1024
      \<and> unat v = unat sz div 1024 ^ nat c
      \<and> (\<exists>u. prettySize_units ! nat c = Some u)
      \<and> (\<exists>str. prettySize sz = Inr str)"
proof -
  obtain v c where h: "pretty_loop sz 1024 5 0 = Inr (v, c)" "0 \<le> c" "c \<le> 3" "v \<le> 1024"
    "unat v = unat sz div 1024 ^ nat c"
    using pretty_loop_1024 [of sz] by blast
  then have "nat c \<in> {0, 1, 2, 3}" by auto
  then have "\<exists>u. prettySize_units ! nat c = Some u"
    by (auto simp: prettySize_units_def)
  moreover have "\<exists>str. prettySize sz = Inr str" using prettySize_total [of sz] by blast
  ultimately show ?thesis using h by blast
qed

text \<open>
  Claim C10. On the tick in which the staleness condition triggers, \<open>tik\<close> returns
  the empty string, which is not a status report, and the state after it is the state
  before with \<open>time_connected\<close> incremented and \<open>running\<close> cleared: the
  heartbeat-send counter, the trace of socket calls (no heartbeat is sent), the socket
  handle and the byte counters are unchanged.
\<close>
theorem tik_stale_changes_only_time_and_running:
  assumes "sockfd s \<noteq> -1" and "running s"
    and "60 < time_connected s + 1 - time_last_heartbeat s"
  shows "tik s = (Inr [], s\<lparr>time_connected := time_connected s + 1, running := False\<rparr>)
    \<and> time_send_heartbeat (snd (tik s)) = time_send_heartbeat s
    \<and> trace (snd (tik s)) = trace s
    \<and> sockfd (snd (tik s)) = sockfd s
    \<and> bytes_sent (snd (tik s)) = bytes_sent s
    \<and> bytes_recv (snd (tik s)) = bytes_recv s
    \<and> status_report (snd (tik s)) \<noteq> Inr []"
  using tik_stale [OF assms] status_report_total [of "snd (tik s)"] by auto

text \<open>A session connected for 61 seconds that never received a heartbeat.\<close>

theorem tik_stale_changes_only_time_and_running_witness:
  "tik (initial_state\<lparr>sockfd := 3, running := True, time_connected := 61\<rparr>) =
     (Inr [], initial_state\<lparr>sockfd := 3, running := False, time_connected := 62\<rparr>)"
  using tik_stale_changes_only_time_and_running
    [of "initial_state\<lparr>sockfd := 3, running := True, time_connected := 61\<rparr>"]
  by (simp add: initial_state_def)

text \<open>
  Claim C3, amended. For an active session that has received no heartbeat
  (\<open>time_last_heartbeat = 0\<close>): with \<open>time_connected\<close> at 61 before the tick, and
  also at 60, one tick returns the empty string and clears \<open>running\<close>, changing
  nothing else but \<open>time_connected\<close> (the socket is not closed by the tick); with
  \<open>time_connected\<close> at 59 or below, one tick leaves \<open>running\<close> set and the socket
  handle as it is, and returns a status report.
\<close>

theorem tik_staleness_threshold:
  assumes "sockfd s \<noteq> -1" and "running s" and "time_last_heartbeat s = 0"
  shows "(time_connected s = 61 \<longrightarrow>
            tik s = (Inr [], s\<lparr>time_connected := 62, running := False\<rparr>))
    \<and> (time_connected s = 60 \<longrightarrow>
            tik s = (Inr [], s\<lparr>time_connected := 61, running := False\<rparr>))
    \<and> (unat (time_connected s) \<le> 59 \<longrightarrow>
            running (snd (tik s)) \<and> sockfd (snd (tik s)) = sockfd s
            \<and> fst (tik s) \<noteq> Inr [])"
proof (intro conjI impI)
  assume "time_connected s = 61"
  then show "tik s = (Inr [], s\<lparr>time_connected := 62, running := False\<rparr>)"
    using tik_stale [of s] assms by simp
next
  assume "time_connected s = 60"
  then show "tik s = (Inr [], s\<lparr>time_connected := 61, running := False\<rparr>)"
    using tik_stale [of s] assms by simp
next
  assume le: "unat (time_connected s) \<le> 59"
  then have "unat (time_connected s + 1) = unat (time_connected s) + 1"
    by (simp add: unat_word_ariths)
  then have "\<not> 60 < time_connected s + 1" using le by (simp add: word_less_nat_alt)
  then have live: "tick_live s" using assms by (simp add: tick_live_def)
  show "running (snd (tik s))" by (rule tik_live_fields(1) [OF live])
  show "sockfd (snd (tik s)) = sockfd s" by (rule tik_live_fields(2) [OF live])
  show "fst (tik s) \<noteq> Inr []"
    using tik_fst_live [OF live] status_report_total [of "snd (tik s)"] by auto
qed

text \<open>The three cases at 61, 60 and 59 seconds.\<close>

theorem tik_staleness_threshold_witness:
  "tik (initial_state\<lparr>sockfd := 3, running := True, time_connected := 61\<rparr>) =
     (Inr [], initial_state\<lparr>sockfd := 3, running := False, time_connected := 62\<rparr>)
   \<and> tik (initial_state\<lparr>sockfd := 3, running := True, time_connected := 60\<rparr>) =
     (Inr [], initial_state\<lparr>sockfd := 3, running := False, time_connected := 61\<rparr>)
   \<and> running (snd (tik (initial_state\<lparr>sockfd := 3, running := True, time_connected := 59\<rparr>)))"
  using tik_staleness_threshold
      [of "initial_state\<lparr>sockfd := 3, running := True, time_connected := 61\<rparr>"]
    tik_staleness_threshold
      [of "initial_state\<lparr>sockfd := 3, running := True, time_connected := 60\<rparr>"]
    tik_staleness_threshold
      [of "initial_state\<lparr>sockfd := 3, running := True, time_connected := 59\<rparr>"]
  by (simp add: initial_state_def)

text \<open>
  Claim C3 says that the tick at 61 seconds closes the socket and that a tick at 60
  seconds or below does not end the session. The tick at 61 leaves the socket handle
  and makes no call on the socket, and the tick at 60 already clears \<open>running\<close>:
  \<open>time_connected\<close> is incremented before the comparison with 60.
\<close>

theorem tik_staleness_counterexample:
  "sockfd (snd (tik (initial_state\<lparr>sockfd := 3, running := True, time_connected := 61\<rparr>))) = 3
   \<and> trace (snd (tik (initial_state\<lparr>sockfd := 3, running := True, time_connected := 61\<rparr>))) = []
   \<and> \<not> running (snd (tik (initial_state\<lparr>sockfd := 3, running := True, time_connected := 60\<rparr>)))"
  by (simp add: tik_def initial_state_def Let_def)

text \<open>
  Claim C5. Take 20 consecutive ticks, each finding the session active and not stale,
  with anything the other threads do in between (as long as it is traffic: it neither
  writes the heartbeat-send counter nor sends a heartbeat frame). The counter is below
  20 at every tick, since the globals start at 0, \<open>open\<close> writes 0 and \<open>tik\<close>
  keeps it below 20 (lemma \<open>tik_keeps_counter_below_20\<close>). Then exactly one
  heartbeat frame is handed to \<open>send\<close> in the run and the counter ends where it
  started. A pass of the sender thread is such traffic (lemma
  \<open>send_thread_pass_is_other_traffic\<close>), and so is the receiver thread noting a
  heartbeat.
\<close>
theorem heartbeat_every_20_ticks:
  assumes "length es = 20" and "\<forall>e \<in> set es. other_traffic e" and "live_run es s"
    and "unat (time_send_heartbeat s) < 20"
  shows "heartbeat_sends (trace (run_ticks es s)) = heartbeat_sends (trace s) + 1
    \<and> time_send_heartbeat (run_ticks es s) = time_send_heartbeat s"
proof -
  let ?c = "unat (time_send_heartbeat s)"
  have r: "unat (time_send_heartbeat (run_ticks es s)) = (?c + 20) mod 20"
    "heartbeat_sends (trace (run_ticks es s)) = heartbeat_sends (trace s) + (?c + 20) div 20"
    using run_ticks_counts [OF assms(2) assms(3) assms(4)] assms(1) by simp_all
  have "(?c + 20) div 20 = 1" using assms(4) by simp
  moreover have "(?c + 20) mod 20 = ?c" using assms(4) by simp
  ultimately show ?thesis using r by (simp add: word_unat_eq_iff)
qed

text \<open>
  Twenty ticks of a fresh session during which a heartbeat is received after every
  tick (the receiver thread sets \<open>time_last_heartbeat\<close> to \<open>time_connected\<close>).
\<close>

theorem heartbeat_every_20_ticks_witness:
  "heartbeat_sends
     (trace (run_ticks (replicate 20 (\<lambda>s. s\<lparr>time_last_heartbeat := time_connected s\<rparr>))
               (initial_state\<lparr>sockfd := 3, running := True\<rparr>))) = 1"
proof -
  let ?e = "\<lambda>s :: state. s\<lparr>time_last_heartbeat := time_connected s\<rparr>"
  let ?s = "initial_state\<lparr>sockfd := 3, running := True\<rparr>"
  have 1: "length (replicate 20 ?e) = 20" by simp
  have 2: "\<forall>e \<in> set (replicate 20 ?e). other_traffic e" by (simp add: other_traffic_def)
  have 3: "live_run (replicate 20 ?e) ?s"
    by (rule live_run_heartbeats) (simp_all add: initial_state_def)
  have 4: "unat (time_send_heartbeat ?s) < 20" by (simp add: initial_state_def)
  show ?thesis
    using heartbeat_every_20_ticks [OF 1 2 3 4]
    by (simp add: initial_state_def heartbeat_sends_def)
qed

section \<open>Properties of the sender thread\<close>

lemma unat_byte: "unat (of_nat (n mod 256) :: 8 word) = n mod 256"
  by (simp add: unat_of_nat)

lemma byte_digits:
  assumes "n < 4294967296"
  shows "n mod 256 + 256 * (n div 256 mod 256 + 256 * (n div 65536 mod 256
          + 256 * (n div 16777216 mod 256))) = (n :: nat)"
proof -
  define a0 where "a0 = n mod 256"
  define a1 where "a1 = n div 256 mod 256"
  define a2 where "a2 = n div 65536 mod 256"
  define a3 where "a3 = n div 16777216 mod 256"
  define m2 where "m2 = n mod 65536"
  define m3 where "m3 = n mod 16777216"
  have 1: "m2 = 256 * a1 + a0"
    using mod_mult2_eq [of n 256 256] by (simp add: m2_def a1_def a0_def)
  have 2: "m3 = 65536 * a2 + m2"
    using mod_mult2_eq [of n 65536 256] by (simp add: m3_def a2_def m2_def)
  have 3: "n = 16777216 * a3 + m3"
    using mod_mult2_eq [of n 16777216 256] assms by (simp add: m3_def a3_def)
  have "a0 + 256 * (a1 + 256 * (a2 + 256 * a3)) = n"
    using 1 2 3 by (simp add: algebra_simps)
  then show ?thesis by (simp only: a0_def a1_def a2_def a3_def)
qed

lemma bytes_u32_u32_bytes: "bytes_u32 (u32_bytes w) = w"
proof -
  have b: "unat w < 4294967296" using unsigned_less [of w, where ?'a = nat] by simp
  have "foldr (\<lambda>b n. unat b + 256 * n) (u32_bytes w) 0 = unat w"
    by (simp only: u32_bytes_def foldr.simps o_apply id_apply unat_byte mult_0_right add_0_right
          byte_digits [OF b])
  then show ?thesis by (simp add: bytes_u32_def)
qed

lemma length_u32_bytes: "length (u32_bytes w) = 4"
  by (simp add: u32_bytes_def)

lemma length_poke: "off + length bs \<le> length buf \<Longrightarrow> length (poke buf off bs) = length buf"
  by (simp add: poke_def)


lemma u32_bytes_shape: "\<exists>a b c d. u32_bytes w = [a, b, c, d]"
  by (simp add: u32_bytes_def)

lemma built_message:
  assumes "length p \<le> 4096"
  shows "set_type ty (set_length w (poke zero_Message 5 p)) =
           u32_bytes w @ [ty] @ p @ replicate (4099 - length p) 0"
proof -
  obtain a b c d where u: "u32_bytes w = [a, b, c, d]" using u32_bytes_shape by blast
  show ?thesis using assms
    by (simp add: set_type_def set_length_def poke_def zero_Message_def u)
qed

lemma msg_length_built:
  "msg_length (u32_bytes w @ rest) = w"
  by (simp add: msg_length_def length_u32_bytes bytes_u32_u32_bytes)

lemma unat_word_of_int_nat:
  "n < 4294967296 \<Longrightarrow> unat (word_of_int (int n) :: 32 word) = n"
  by (simp add: unat_of_nat)

lemma send_thread_body_zero: "send_thread_body s (ReadBytes []) = s"
  by (simp add: send_thread_body_def tun_read_def)

lemma send_thread_body_frame:
  assumes "running s" and "p \<noteq> []"
  shows "send_thread_body s (ReadBytes p) =
     (snd (sock_send s (frame NET_REQUEST (take 4096 p))))
       \<lparr>bytes_sent := bytes_sent s + (of_nat (length (take 4096 p)) + 5)\<rparr>"
proof -
  define q where "q = take 4096 p"
  define n where "n = length q"
  define w where "w = (of_nat n + 5 :: 32 word)"
  have n: "0 < n" "n \<le> 4096" using assms(2) by (simp_all add: n_def q_def)
  have un: "unat (of_nat n :: 32 word) = n" using n by (simp add: unat_of_nat)
  have pos: "0 < (of_nat n :: 32 word)" using n un by (simp add: word_less_nat_alt)
  have uw: "unat w = n + 5" using n un by (simp add: unat_word_ariths w_def)
  have m: "set_type NET_REQUEST (set_length w (poke zero_Message 5 q)) =
             u32_bytes w @ [NET_REQUEST] @ q @ replicate (4099 - length q) 0"
    by (rule built_message) (use n in \<open>simp add: n_def\<close>)
  have t: "take (n + 5) (u32_bytes w @ [NET_REQUEST] @ q @ replicate (4099 - length q) 0) =
             frame NET_REQUEST q"
    by (simp add: frame_def length_u32_bytes n_def w_def)
  have r: "tun_read (ReadBytes p) 4096 = (int n, q)"
    by (simp add: tun_read_def n_def q_def)
  have bs: "bytes_sent (snd (sock_send s (frame NET_REQUEST q))) = bytes_sent s"
    by (simp add: sock_send_snd)
  define msg where "msg = set_type NET_REQUEST (set_length w (poke zero_Message 5 q))"
  have ml: "msg_length msg = w" by (simp only: msg_def m msg_length_built)
  have tk: "take (unat w) msg = frame NET_REQUEST q" by (simp only: msg_def m uw t)
  have sr: "snd (send_raw s msg w) = snd (sock_send s (frame NET_REQUEST q))"
    using send_raw_snd [of s msg w] assms(1) tk by simp
  have "send_thread_body s (ReadBytes p) =
     (snd (sock_send s (frame NET_REQUEST q)))\<lparr>bytes_sent := bytes_sent s + w\<rparr>"
    unfolding send_thread_body_def r
    using pos
    by (simp add: Let_def w_def [symmetric] msg_def [symmetric] ml sr bs)
  then show ?thesis by (simp add: w_def n_def q_def)
qed

lemma send_thread_body_failed_read:
  assumes "running s"
  shows "send_thread_body s ReadFail =
     (snd (sock_send s [4, 0, 0, 0]))\<lparr>bytes_sent := bytes_sent s + 4\<rparr>"
proof -
  have m: "set_type NET_REQUEST (set_length 4 (poke zero_Message 5 [])) =
             u32_bytes 4 @ [NET_REQUEST] @ [] @ replicate (4099 - length ([] :: u8 list)) 0"
    by (rule built_message) simp
  have u: "u32_bytes 4 = [4, 0, 0, 0]" by (simp add: u32_bytes_def)
  have bs: "bytes_sent (snd (sock_send s [4, 0, 0, 0])) = bytes_sent s"
    by (simp add: sock_send_snd)
  have pos: "(0 :: 32 word) < - 1" by (simp add: word_gt_0)
  show ?thesis using assms pos
    by (simp add: send_thread_body_def tun_read_def Let_def m msg_length_built send_raw_snd)
       (simp add: u bs)
qed

text \<open>One pass of the sender's loop is traffic in the sense of \<open>other_traffic\<close>.\<close>

lemma send_thread_pass_is_other_traffic:
  "other_traffic (\<lambda>s. if running s then send_thread_body s ev else s)"
proof -
  have nf: "frame NET_REQUEST q \<noteq> frame HEARTBEAT []" for q
    by (simp add: frame_def u32_bytes_def)
  have n4: "[4, 0, 0, 0] \<noteq> frame HEARTBEAT []"
    by (simp add: frame_def u32_bytes_def)
  have "time_send_heartbeat (send_thread_body s ev) = time_send_heartbeat s
      \<and> heartbeat_sends (trace (send_thread_body s ev)) = heartbeat_sends (trace s)"
    if run: "running s" for s
  proof (cases ev)
    case ReadFail
    then show ?thesis
      using send_thread_body_failed_read [OF run] n4
      by (simp add: sock_send_snd heartbeat_sends_def)
  next
    case (ReadBytes p)
    show ?thesis
    proof (cases "p = []")
      case True
      then show ?thesis using ReadBytes by (simp add: send_thread_body_zero)
    next
      case False
      then show ?thesis
        using send_thread_body_frame [OF run False] nf ReadBytes
        by (simp add: sock_send_snd heartbeat_sends_def)
    qed
  qed
  then show ?thesis by (simp add: other_traffic_def)
qed

text \<open>
  Claim C7 says that a tun read returning a negative value is treated as nothing
  ready. The code stores the result of \<open>read\<close> in a \<open>u32\<close>, where \<open>-1\<close> is
  4294967295 and passes the test \<open>length > 0\<close>: the length field becomes
  \<open>4294967295 + 5 = 4\<close>, four bytes (that length field alone) are handed to \<open>send\<close>
  and \<open>bytes_sent\<close> grows by 4. A read of zero bytes does leave the state as it is
  (lemma \<open>send_thread_body_zero\<close>).
\<close>

theorem send_thread_body_negative_read_sends:
  "send_thread_body (initial_state\<lparr>sockfd := 3, tunfd := 4, running := True\<rparr>) ReadFail =
     initial_state\<lparr>sockfd := 3, tunfd := 4, running := True, bytes_sent := 4,
                    trace := [Send 3 [4, 0, 0, 0] 4]\<rparr>"
  using send_thread_body_failed_read [of "initial_state\<lparr>sockfd := 3, tunfd := 4, running := True\<rparr>"]
  by (simp add: initial_state_def sock_send_def)

section \<open>Properties of receiving\<close>

lemma recv_loop_done:
  "\<not> ((running s \<or> ip_requesting s) \<and> received < unat len) \<Longrightarrow>
   recv_raw_loop s buffer off len received k = Inr (received, buffer, s)"
  by (subst recv_raw_loop.simps) auto

lemma recv_loop_nodata:
  "running s \<or> ip_requesting s \<Longrightarrow> received < unat len \<Longrightarrow> inbound s = NoData # evs \<Longrightarrow>
   recv_raw_loop s buffer off len received k =
   recv_raw_loop (s\<lparr>inbound := evs\<rparr>) buffer off len received 0"
  by (subst recv_raw_loop.simps) (simp add: sock_recv_def)

lemma recv_loop_timeout_retry:
  "running s \<or> ip_requesting s \<Longrightarrow> received < unat len \<Longrightarrow> inbound s = Timeout # evs \<Longrightarrow>
   k + 1 \<noteq> 3 \<Longrightarrow>
   recv_raw_loop s buffer off len received k =
   recv_raw_loop (s\<lparr>inbound := evs, trace := trace s @ [Connect (sockfd s)]\<rparr>)
     buffer off len received (k + 1)"
  by (subst recv_raw_loop.simps) (simp add: sock_recv_def sock_connect_def)

lemma recv_loop_timeout_giveup:
  "running s \<or> ip_requesting s \<Longrightarrow> received < unat len \<Longrightarrow> inbound s = Timeout # evs \<Longrightarrow>
   k + 1 = 3 \<Longrightarrow>
   recv_raw_loop s buffer off len received k = Inr (received, buffer, s\<lparr>inbound := evs\<rparr>)"
  by (subst recv_raw_loop.simps) (simp add: sock_recv_def)

lemma recv_loop_silent_retry:
  "running s \<or> ip_requesting s \<Longrightarrow> received < unat len \<Longrightarrow> inbound s = [] \<Longrightarrow>
   k + 1 \<noteq> 3 \<Longrightarrow>
   recv_raw_loop s buffer off len received k =
   recv_raw_loop (s\<lparr>trace := trace s @ [Connect (sockfd s)]\<rparr>) buffer off len received (k + 1)"
  by (subst recv_raw_loop.simps) (simp add: sock_recv_def sock_connect_def)

lemma recv_loop_silent_giveup:
  "running s \<or> ip_requesting s \<Longrightarrow> received < unat len \<Longrightarrow> inbound s = [] \<Longrightarrow>
   k + 1 = 3 \<Longrightarrow>
   recv_raw_loop s buffer off len received k = Inr (received, buffer, s)"
  by (subst recv_raw_loop.simps) (simp add: sock_recv_def)

lemma recv_loop_data:
  assumes "running s \<or> ip_requesting s" and "received < unat len"
    and "inbound s = Data bs # evs" and "bs \<noteq> []"
    and "off + received + min (unat len - received) (length bs) \<le> length buffer"
  shows "recv_raw_loop s buffer off len received k =
     recv_raw_loop
       (s\<lparr>inbound := (if length bs \<le> unat len - received then evs
                       else Data (drop (unat len - received) bs) # evs)\<rparr>)
       (poke buffer (off + received) (take (unat len - received) bs)) off len
       (received + min (unat len - received) (length bs)) 0"
  using assms
  by (subst recv_raw_loop.simps) (simp add: sock_recv_def min_def)

lemma recv_loop_overflow:
  assumes "running s \<or> ip_requesting s" and "received < unat len"
    and "inbound s = Data bs # evs" and "bs \<noteq> []"
    and "length buffer < off + received + min (unat len - received) (length bs)"
  shows "recv_raw_loop s buffer off len received k = Inl BufferOverflow"
  using assms
  by (subst recv_raw_loop.simps) (simp add: sock_recv_def min_def)

lemma recv_loop_three_timeouts:
  assumes "running s \<or> ip_requesting s" and "received < unat len"
    and "inbound s = Timeout # Timeout # Timeout # evs"
  shows "recv_raw_loop s buffer off len received 0 =
     Inr (received, buffer,
          s\<lparr>inbound := evs, trace := trace s @ [Connect (sockfd s), Connect (sockfd s)]\<rparr>)"
proof -
  let ?s1 = "s\<lparr>inbound := Timeout # Timeout # evs, trace := trace s @ [Connect (sockfd s)]\<rparr>"
  let ?s2 = "?s1\<lparr>inbound := Timeout # evs, trace := trace ?s1 @ [Connect (sockfd ?s1)]\<rparr>"
  have "recv_raw_loop s buffer off len received 0 = recv_raw_loop ?s1 buffer off len received 1"
    using recv_loop_timeout_retry [OF assms(1) assms(2) assms(3), of 0 buffer off] by simp
  also have "\<dots> = recv_raw_loop ?s2 buffer off len received 2"
    using recv_loop_timeout_retry [of ?s1 received len "Timeout # evs" 1 buffer off] assms by simp
  also have "\<dots> = Inr (received, buffer, ?s2\<lparr>inbound := evs\<rparr>)"
    using recv_loop_timeout_giveup [of ?s2 received len evs 2 buffer off] assms by simp
  finally show ?thesis by simp
qed

lemma recv_loop_silence:
  assumes "running s \<or> ip_requesting s" and "received < unat len" and "inbound s = []"
  shows "recv_raw_loop s buffer off len received 0 =
     Inr (received, buffer, s\<lparr>trace := trace s @ [Connect (sockfd s), Connect (sockfd s)]\<rparr>)"
proof -
  let ?s1 = "s\<lparr>trace := trace s @ [Connect (sockfd s)]\<rparr>"
  let ?s2 = "?s1\<lparr>trace := trace ?s1 @ [Connect (sockfd ?s1)]\<rparr>"
  have "recv_raw_loop s buffer off len received 0 = recv_raw_loop ?s1 buffer off len received 1"
    using recv_loop_silent_retry [OF assms(1) assms(2) assms(3), of 0 buffer off] by simp
  also have "\<dots> = recv_raw_loop ?s2 buffer off len received 2"
    using recv_loop_silent_retry [of ?s1 received len 1 buffer off] assms by simp
  also have "\<dots> = Inr (received, buffer, ?s2)"
    using recv_loop_silent_giveup [of ?s2 received len 2 buffer off] assms by simp
  finally show ?thesis by simp
qed


lemma recv_raw_chunk:
  assumes "running s \<or> ip_requesting s" and "inbound s = Data bs # evs"
    and "0 < unat len" and "unat len \<le> length bs" and "off + unat len \<le> length buffer"
  shows "recv_raw s buffer off len =
     Inr (unat len, poke buffer off (take (unat len) bs),
          s\<lparr>inbound := (if length bs \<le> unat len then evs
                          else Data (drop (unat len) bs) # evs)\<rparr>)"
proof -
  have ne: "bs \<noteq> []" using assms(3,4) by auto
  have m: "min (unat len) (length bs) = unat len" using assms(4) by simp
  have "recv_raw_loop s buffer off len 0 0 =
     recv_raw_loop
       (s\<lparr>inbound := (if length bs \<le> unat len then evs else Data (drop (unat len) bs) # evs)\<rparr>)
       (poke buffer off (take (unat len) bs)) off len (unat len) 0"
    using recv_loop_data [OF assms(1) _ assms(2) ne, of 0 len off buffer 0] assms(3,5) m
    by simp
  then show ?thesis by (simp add: recv_raw_def recv_loop_done)
qed

lemma sock_recv_cases:
  obtains (silent) "inbound s = []" "sock_recv s n = (-1, [], s)"
  | (timeout) evs where "inbound s = Timeout # evs" "sock_recv s n = (-1, [], s\<lparr>inbound := evs\<rparr>)"
  | (nodata) evs where "inbound s = NoData # evs" "sock_recv s n = (0, [], s\<lparr>inbound := evs\<rparr>)"
  | (data) bs evs where "inbound s = Data bs # evs"
      "sock_recv s n = (int (min n (length bs)), take n bs,
          s\<lparr>inbound := (if length bs \<le> n then evs else Data (drop n bs) # evs)\<rparr>)"
proof (cases "inbound s")
  case Nil
  then show ?thesis using silent by (simp add: sock_recv_def)
next
  case (Cons ev evs)
  then show ?thesis using timeout nodata data
    by (cases ev) (simp_all add: sock_recv_def)
qed

lemma recv_raw_loop_bounded:
  "off + unat len \<le> length buffer \<Longrightarrow> received \<le> unat len \<Longrightarrow>
   \<exists>r b s'. recv_raw_loop s buffer off len received k = Inr (r, b, s')
      \<and> received \<le> r \<and> r \<le> unat len \<and> length b = length buffer \<and> same_session s s'"
proof (induction s buffer off len received k rule: recv_raw_loop.induct)
  case (1 s buffer off len received k)
  show ?case
  proof (cases "(running s \<or> ip_requesting s) \<and> received < unat len")
    case False
    then show ?thesis using "1.prems" by (simp add: recv_loop_done same_session_def)
  next
    case True
    let ?n = "unat len - received"
    show ?thesis
    proof (cases rule: sock_recv_cases [of s ?n])
      case silent
      show ?thesis
      proof (cases "k + 1 = 3")
        case True
        then show ?thesis using \<open>(running s \<or> ip_requesting s) \<and> received < unat len\<close> silent "1.prems"
          by (simp add: recv_loop_silent_giveup same_session_def)
      next
        case False
        have "\<exists>r b s'. recv_raw_loop (sock_connect s) buffer off len received (k + 1) = Inr (r, b, s')
            \<and> received \<le> r \<and> r \<le> unat len \<and> length b = length buffer
            \<and> same_session (sock_connect s) s'"
          using "1.IH"(1) [OF \<open>(running s \<or> ip_requesting s) \<and> received < unat len\<close>
              silent(2) [symmetric] refl _ False "1.prems"]
          by simp
        moreover have "recv_raw_loop s buffer off len received k =
            recv_raw_loop (sock_connect s) buffer off len received (k + 1)"
          using \<open>(running s \<or> ip_requesting s) \<and> received < unat len\<close> silent False
          by (simp add: recv_loop_silent_retry sock_connect_def)
        ultimately show ?thesis by (auto simp: same_session_def sock_connect_def)
      qed
    next
      case (timeout evs)
      show ?thesis
      proof (cases "k + 1 = 3")
        case True
        then show ?thesis using \<open>(running s \<or> ip_requesting s) \<and> received < unat len\<close> timeout "1.prems"
          by (simp add: recv_loop_timeout_giveup same_session_def)
      next
        case False
        let ?s1 = "s\<lparr>inbound := evs\<rparr>"
        have "\<exists>r b s'. recv_raw_loop (sock_connect ?s1) buffer off len received (k + 1) = Inr (r, b, s')
            \<and> received \<le> r \<and> r \<le> unat len \<and> length b = length buffer
            \<and> same_session (sock_connect ?s1) s'"
          using "1.IH"(1) [OF \<open>(running s \<or> ip_requesting s) \<and> received < unat len\<close>
              timeout(2) [symmetric] refl _ False "1.prems"]
          by simp
        moreover have "recv_raw_loop s buffer off len received k =
            recv_raw_loop (sock_connect ?s1) buffer off len received (k + 1)"
          using \<open>(running s \<or> ip_requesting s) \<and> received < unat len\<close> timeout False
          by (simp add: recv_loop_timeout_retry sock_connect_def)
        ultimately show ?thesis by (auto simp: same_session_def sock_connect_def)
      qed
    next
      case (nodata evs)
      let ?s1 = "s\<lparr>inbound := evs\<rparr>"
      have "\<exists>r b s'. recv_raw_loop ?s1 buffer off len received 0 = Inr (r, b, s')
          \<and> received \<le> r \<and> r \<le> unat len \<and> length b = length buffer \<and> same_session ?s1 s'"
        using "1.IH"(2) [OF \<open>(running s \<or> ip_requesting s) \<and> received < unat len\<close>
            nodata(2) [symmetric] refl _ _ "1.prems"]
        by simp
      moreover have "recv_raw_loop s buffer off len received k =
          recv_raw_loop ?s1 buffer off len received 0"
        using \<open>(running s \<or> ip_requesting s) \<and> received < unat len\<close> nodata
        by (simp add: recv_loop_nodata)
      ultimately show ?thesis by (auto simp: same_session_def)
    next
      case (data bs evs)
      show ?thesis
      proof (cases "bs = []")
        case True
        let ?s1 = "s\<lparr>inbound := evs\<rparr>"
        have r: "sock_recv s ?n = (0, [], ?s1)" using data True by simp
        have "\<exists>r b s'. recv_raw_loop ?s1 buffer off len received 0 = Inr (r, b, s')
            \<and> received \<le> r \<and> r \<le> unat len \<and> length b = length buffer \<and> same_session ?s1 s'"
          using "1.IH"(2) [OF \<open>(running s \<or> ip_requesting s) \<and> received < unat len\<close>
              r [symmetric] refl _ _ "1.prems"]
          by simp
        moreover have "recv_raw_loop s buffer off len received k =
            recv_raw_loop ?s1 buffer off len received 0"
          using \<open>(running s \<or> ip_requesting s) \<and> received < unat len\<close> r
          by (subst recv_raw_loop.simps) simp
        ultimately show ?thesis by (auto simp: same_session_def)
      next
        case False
        let ?m = "min ?n (length bs)"
        let ?s1 = "s\<lparr>inbound := (if length bs \<le> ?n then evs else Data (drop ?n bs) # evs)\<rparr>"
        let ?b1 = "poke buffer (off + received) (take ?n bs)"
        have mpos: "0 < ?m" using False True by simp
        have fits: "off + received + ?m \<le> length buffer" using "1.prems" True by (auto simp: min_def)
        have lb: "length ?b1 = length buffer" using fits by (simp add: poke_def)
        have le: "received + ?m \<le> unat len" using True by (auto simp: min_def)
        have nn: "\<not> int ?m < 0" by simp
        have nz: "int ?m \<noteq> 0" using mpos by simp
        have nf: "\<not> length buffer < off + received + nat (int ?m)" using fits by simp
        have p1: "off + unat len \<le> length ?b1" using lb "1.prems" by simp
        have p2: "received + nat (int ?m) \<le> unat len" using le by simp
        obtain r b s' where ih:
          "recv_raw_loop ?s1 ?b1 off len (received + nat (int ?m)) 0 = Inr (r, b, s')"
          "received + nat (int ?m) \<le> r" "r \<le> unat len" "length b = length ?b1"
          "same_session ?s1 s'"
          using "1.IH"(3) [OF \<open>(running s \<or> ip_requesting s) \<and> received < unat len\<close>
              data(2) [symmetric] refl nn nz nf p1 p2]
          by blast
        have st: "recv_raw_loop s buffer off len received k =
            recv_raw_loop ?s1 ?b1 off len (received + ?m) 0"
          using recv_loop_data [OF _ _ data(1) False fits] True by blast
        have "recv_raw_loop s buffer off len received k = Inr (r, b, s')"
          using st ih(1) by simp
        moreover have "received \<le> r" using ih(2) by simp
        moreover have "length b = length buffer" using ih(4) lb by simp
        moreover have "same_session s s'" using ih(5) by (simp add: same_session_def)
        ultimately show ?thesis using ih(3) by blast
      qed
    qed
  qed
qed


lemma length_frame: "length (frame ty p) = length p + 5"
  by (simp add: frame_def u32_bytes_def)

lemma unat_frame_length:
  "length p \<le> 4096 \<Longrightarrow> unat (of_nat (length p) + 5 :: 32 word) = length p + 5"
  by (simp add: unat_word_ariths unat_of_nat)

lemma recv_message_decodes:
  assumes run: "running s" and lm: "length message = sizeof_Message"
    and lp: "length p \<le> DATA_MAX_LENGTH"
    and inb: "inbound s = Data (frame ty p @ extra) # rest"
  shows "recv_message s message =
     Inr (True, u32_bytes (of_nat (length p) + 5) @ ty # p @ drop (length p + 5) message,
          s\<lparr>inbound := (if extra = [] then rest else Data extra # rest)\<rparr>)"
proof -
  define w where "w = (of_nat (length p) + 5 :: 32 word)"
  define n where "n = length p"
  have uw: "unat w = n + 5" using lp by (simp add: w_def n_def unat_frame_length)
  have uw4: "unat (w - 4) = n + 1"
  proof -
    have e: "w - 4 = of_nat n + 1" by (simp add: w_def n_def)
    have u: "unat (of_nat n + 1 :: 32 word) = n + 1"
      using lp by (simp add: n_def unat_word_ariths unat_of_nat)
    show ?thesis by (simp only: e u)
  qed
  have fr: "frame ty p = u32_bytes w @ ty # p" by (simp add: frame_def w_def)
  have lu: "length (u32_bytes w) = 4" by (simp add: u32_bytes_def)
  let ?s1 = "s\<lparr>inbound := Data (ty # p @ extra) # rest\<rparr>"
  let ?m1 = "u32_bytes w @ drop 4 message"
  have first: "recv_raw s message 0 4 = Inr (4, ?m1, ?s1)"
    using recv_raw_chunk [of s "frame ty p @ extra" rest 4 0 message] run inb lm
    by (simp add: fr lu poke_def)
  have ml1: "msg_length ?m1 = w" by (simp add: msg_length_def lu bytes_u32_u32_bytes)
  let ?s2 = "s\<lparr>inbound := (if extra = [] then rest else Data extra # rest)\<rparr>"
  let ?m2 = "u32_bytes w @ ty # p @ drop (n + 5) message"
  have tk: "take (n + 1) (ty # p @ extra) = ty # p" by (simp add: n_def)
  have dr: "drop (n + 1) (ty # p @ extra) = extra" by (simp add: n_def)
  have c1: "running ?s1 \<or> ip_requesting ?s1" using run by simp
  have c2: "inbound ?s1 = Data (ty # p @ extra) # rest" by simp
  have c3: "0 < unat (w - 4)" by (simp add: uw4)
  have c4: "unat (w - 4) \<le> length (ty # p @ extra)" by (simp add: uw4 n_def)
  have c5: "4 + unat (w - 4) \<le> length ?m1" using lm lp by (simp add: uw4 lu n_def)
  have pk: "poke ?m1 4 (ty # p) = ?m2" using lm lp by (simp add: poke_def lu n_def ac_simps)
  have st: "?s1\<lparr>inbound := (if length (ty # p @ extra) \<le> n + 1 then rest
                            else Data extra # rest)\<rparr> = ?s2"
    by (simp add: n_def)
  have second: "recv_raw ?s1 ?m1 4 (w - 4) = Inr (n + 1, ?m2, ?s2)"
    using recv_raw_chunk [OF c1 c2 c3 c4 c5]
    unfolding uw4 tk dr pk st .
  have ml2: "msg_length ?m2 = w" by (simp add: msg_length_def lu bytes_u32_u32_bytes)
  have "recv_message s message = Inr (True, ?m2, ?s2)"
    using run by (simp add: recv_message_def first ml1 second ml2 uw)
  then show ?thesis by (simp add: w_def n_def)
qed

lemma decoded_fields:
  assumes lp: "length p \<le> DATA_MAX_LENGTH"
  shows "msg_length (u32_bytes (of_nat (length p) + 5) @ ty # p @ tl') = of_nat (length p) + 5"
    and "msg_type (u32_bytes (of_nat (length p) + 5) @ ty # p @ tl') = ty"
    and "msg_payload (u32_bytes (of_nat (length p) + 5) @ ty # p @ tl') = p"
proof -
  let ?w = "of_nat (length p) + 5 :: 32 word"
  have lu: "length (u32_bytes ?w) = 4" by (simp add: u32_bytes_def)
  show l: "msg_length (u32_bytes ?w @ ty # p @ tl') = ?w"
    by (simp add: msg_length_def lu bytes_u32_u32_bytes)
  show "msg_type (u32_bytes ?w @ ty # p @ tl') = ty"
    by (simp add: msg_type_def nth_append lu)
  have "unat (?w - 5) = length p" using lp by (simp add: unat_of_nat)
  then show "msg_payload (u32_bytes ?w @ ty # p @ tl') = p"
    using lp by (simp add: msg_payload_def l msg_data_def lu)
qed

section \<open>The claims about framing and receiving\<close>

text \<open>
  Claim C1. Take any type byte and any payload of at most 4096 bytes, and let the bytes
  of its frame (total length = payload length + 5, type, payload) arrive on the socket
  of a running relay, possibly followed by more bytes. Then \<open>recv_message\<close> returns
  true with a message whose length field, type and payload are the original ones, and
  it consumes the frame and nothing behind it. The frame is the one \<open>send_thread\<close>
  builds (lemma \<open>send_thread_body_frame\<close>); \<open>recv_message\<close> decodes only while
  \<open>running\<close> is set, which is when \<open>send_thread\<close> and \<open>recv_thread\<close> run.
\<close>
theorem frame_round_trip:
  assumes "length payload \<le> DATA_MAX_LENGTH" and "running s"
    and "length message = sizeof_Message"
    and "inbound s = Data (frame ty payload @ extra) # rest"
  shows "\<exists>message'.
      recv_message s message =
        Inr (True, message', s\<lparr>inbound := (if extra = [] then rest else Data extra # rest)\<rparr>)
      \<and> msg_length message' = of_nat (length payload) + 5
      \<and> msg_type message' = ty
      \<and> msg_payload message' = payload"
  using recv_message_decodes [OF assms(2) assms(3) assms(1) assms(4)]
    decoded_fields [OF assms(1), of ty "drop (length payload + 5) message"]
  by blast

text \<open>A data reply with the payload 1, 2, 3 and nothing behind it.\<close>

theorem frame_round_trip_witness:
  "\<exists>message'.
      recv_message
        (initial_state\<lparr>sockfd := 3, running := True, inbound := [Data (frame NET_REPLY [1, 2, 3])]\<rparr>)
        zero_Message =
        Inr (True, message', initial_state\<lparr>sockfd := 3, running := True, inbound := []\<rparr>)
      \<and> msg_length message' = 8
      \<and> msg_type message' = NET_REPLY
      \<and> msg_payload message' = [1, 2, 3]"
  using frame_round_trip
    [where payload = "[1, 2, 3]" and ty = NET_REPLY and extra = "[]" and rest = "[]"
       and message = zero_Message
       and s = "initial_state\<lparr>sockfd := 3, running := True,
                              inbound := [Data (frame NET_REPLY [1, 2, 3])]\<rparr>"]
  by (simp add: initial_state_def zero_Message_def)

text \<open>
  Claim C6, amended. While the session is active and bytes are missing, the loop of
  \<open>recv_raw\<close> treats the results of \<open>recv\<close> as follows. A zero-byte read costs
  nothing: the loop goes on with the count of consecutive failures reset to 0. A
  negative result increments that count; unless it has reached 3, the loop calls
  \<open>connect\<close> once and goes on. When the count reaches 3 the loop gives up without a
  further \<open>connect\<close> and returns the bytes gathered so far, fewer than requested.
  So a read that meets three negative results in a row makes two reconnect attempts
  and returns short.
\<close>
theorem recv_raw_retry_policy:
  assumes "running s \<or> ip_requesting s" and "received < unat len"
  shows "(inbound s = NoData # evs \<longrightarrow>
            recv_raw_loop s buffer off len received k =
            recv_raw_loop (s\<lparr>inbound := evs\<rparr>) buffer off len received 0)
     \<and> (inbound s = Timeout # evs \<and> k + 1 \<noteq> RECONNECT_LIMIT \<longrightarrow>
            recv_raw_loop s buffer off len received k =
            recv_raw_loop (s\<lparr>inbound := evs, trace := trace s @ [Connect (sockfd s)]\<rparr>)
              buffer off len received (k + 1))
     \<and> (inbound s = Timeout # evs \<and> k + 1 = RECONNECT_LIMIT \<longrightarrow>
            recv_raw_loop s buffer off len received k =
            Inr (received, buffer, s\<lparr>inbound := evs\<rparr>))
     \<and> (inbound s = Timeout # Timeout # Timeout # evs \<longrightarrow>
            recv_raw_loop s buffer off len received 0 =
            Inr (received, buffer,
                 s\<lparr>inbound := evs,
                   trace := trace s @ [Connect (sockfd s), Connect (sockfd s)]\<rparr>))"
  using recv_loop_nodata [OF assms, of evs buffer off k]
    recv_loop_timeout_retry [OF assms, of evs k buffer off]
    recv_loop_timeout_giveup [OF assms, of evs k buffer off]
    recv_loop_three_timeouts [OF assms, of evs buffer off]
  by blast

text \<open>
  With one byte of four received: a zero-byte read after two failures, and three
  timeouts in a row with data waiting behind them.
\<close>

theorem recv_raw_retry_policy_witness:
  "recv_raw_loop (initial_state\<lparr>sockfd := 3, running := True, inbound := [NoData, Timeout]\<rparr>)
      zero_Message 0 4 1 2 =
   recv_raw_loop (initial_state\<lparr>sockfd := 3, running := True, inbound := [Timeout]\<rparr>)
      zero_Message 0 4 1 0
   \<and> recv_raw_loop
      (initial_state\<lparr>sockfd := 3, running := True,
                     inbound := [Timeout, Timeout, Timeout, Data [5, 0, 0]]\<rparr>)
      zero_Message 0 4 1 0 =
     Inr (1, zero_Message,
          initial_state\<lparr>sockfd := 3, running := True, inbound := [Data [5, 0, 0]],
                         trace := [Connect 3, Connect 3]\<rparr>)"
  using recv_raw_retry_policy
      [where s = "initial_state\<lparr>sockfd := 3, running := True, inbound := [NoData, Timeout]\<rparr>"
         and received = 1 and len = 4 and evs = "[Timeout]" and buffer = zero_Message
         and off = 0 and k = 2]
    recv_raw_retry_policy
      [where s = "initial_state\<lparr>sockfd := 3, running := True,
                                inbound := [Timeout, Timeout, Timeout, Data [5, 0, 0]]\<rparr>"
         and received = 1 and len = 4 and evs = "[Data [5, 0, 0]]" and buffer = zero_Message
         and off = 0 and k = 0]
  by (simp add: initial_state_def)

text \<open>
  Claim C6 says that each negative read result attempts a reconnect, up to three
  reconnect attempts. A read of four bytes that meets three timeouts makes two calls of
  \<open>connect\<close>: the third negative result attempts none.
\<close>

theorem recv_raw_reconnects_counterexample:
  "recv_raw (initial_state\<lparr>sockfd := 3, running := True, inbound := [Timeout, Timeout, Timeout]\<rparr>)
      zero_Message 0 4 =
   Inr (0, zero_Message,
        initial_state\<lparr>sockfd := 3, running := True, trace := [Connect 3, Connect 3]\<rparr>)"
  using recv_loop_three_timeouts
    [where s = "initial_state\<lparr>sockfd := 3, running := True,
                              inbound := [Timeout, Timeout, Timeout]\<rparr>"
       and received = 0 and len = 4 and evs = "[]" and buffer = zero_Message and off = 0]
  by (simp add: recv_raw_def initial_state_def)

section \<open>The claims about requesting an address\<close>

lemma request_loop_timeout:
  "\<not> elapsed < REQUEST_TIMEOUT_USEC \<Longrightarrow> request_loop s message elapsed = Inr (None, message, s)"
  by (subst request_loop.simps) simp

lemma request_loop_failed:
  "elapsed < REQUEST_TIMEOUT_USEC \<Longrightarrow> recv_message s message = Inr (False, message1, s1) \<Longrightarrow>
   request_loop s message elapsed = Inr (None, message1, s1)"
  by (subst request_loop.simps) simp

lemma request_loop_other:
  "elapsed < REQUEST_TIMEOUT_USEC \<Longrightarrow> recv_message s message = Inr (True, message1, s1) \<Longrightarrow>
   msg_type message1 \<noteq> IP_REPLY \<Longrightarrow>
   request_loop s message elapsed =
   request_loop s1 message1 (elapsed + REQUEST_CHECK_INTERVAL_USEC)"
  by (subst request_loop.simps) simp

lemma request_loop_reply:
  "elapsed < REQUEST_TIMEOUT_USEC \<Longrightarrow> recv_message s message = Inr (True, message1, s1) \<Longrightarrow>
   msg_type message1 = IP_REPLY \<Longrightarrow> c_string (drop 5 message1) = Inr str \<Longrightarrow>
   request_loop s message elapsed = Inr (Some str, message1, s1\<lparr>ip_requesting := False\<rparr>)"
  by (subst request_loop.simps) simp

lemma recv_message_not_running:
  assumes "\<not> running s" and "4 \<le> length message"
  shows "\<exists>message1 s1. recv_message s message = Inr (False, message1, s1)
           \<and> same_session s s1 \<and> length message1 = length message"
proof -
  have "0 + unat (4 :: 32 word) \<le> length message" using assms(2) by simp
  from recv_raw_loop_bounded [OF this, of 0 s 0]
  obtain r b s' where h: "recv_raw_loop s message 0 4 0 0 = Inr (r, b, s')"
      "length b = length message" "same_session s s'"
    by auto
  have "\<not> running s'" using h(3) assms(1) by (simp add: same_session_def)
  then have "recv_message s message = Inr (False, b, s')"
    by (simp add: recv_message_def recv_raw_def h(1))
  then show ?thesis using h by blast
qed

lemma recv_message_silence:
  assumes "running s \<or> ip_requesting s" and "inbound s = []"
  shows "recv_message s message =
     Inr (False, message, s\<lparr>trace := trace s @ [Connect (sockfd s), Connect (sockfd s)]\<rparr>)"
  using recv_loop_silence [OF assms(1) _ assms(2), of 0 4 message 0]
  by (simp add: recv_message_def recv_raw_def)

lemma send_ip_request_state:
  "snd (send_ip_request (s\<lparr>ip_requesting := True\<rparr>)) =
     s\<lparr>ip_requesting := True, send_script := tl (send_script s),
       trace := trace s @ [Send (sockfd s) (frame IP_REQUEST [])
                 (fst (sock_send (s\<lparr>ip_requesting := True\<rparr>) (frame IP_REQUEST [])))]\<rparr>"
proof -
  let ?s = "s\<lparr>ip_requesting := True\<rparr>"
  have "snd (send_ip_request ?s) = snd (sock_send ?s (frame IP_REQUEST []))"
    using send_raw_snd [of ?s ip_request "msg_length ip_request"]
    by (simp add: send_ip_request_def ip_request_frame)
  then show ?thesis by (simp add: sock_send_snd)
qed

lemma request_closes:
  assumes "sockfd s \<noteq> -1"
    and "request_loop (snd (send_ip_request (s\<lparr>ip_requesting := True\<rparr>))) message 0 =
           Inr (None, message1, s1)"
    and "sockfd s1 = sockfd s"
  shows "request s message =
           Inr ([], s1\<lparr>ip_requesting := False, trace := trace s1 @ [Shutdown (sockfd s)],
                       sockfd := -1\<rparr>)"
  using assms by (simp add: request_def sock_shutdown_def)

lemma request_not_running:
  assumes "sockfd s \<noteq> -1" and "\<not> running s" and "4 \<le> length message"
  shows "\<exists>s'. request s message = Inr ([], s') \<and> sockfd s' = -1 \<and> \<not> ip_requesting s'
           \<and> \<not> running s' \<and> trace s' \<noteq> [] \<and> last (trace s') = Shutdown (sockfd s)"
proof -
  let ?s2 = "snd (send_ip_request (s\<lparr>ip_requesting := True\<rparr>))"
  have f: "\<not> running ?s2" "sockfd ?s2 = sockfd s"
    using assms(2) by (simp_all add: send_ip_request_state)
  obtain message1 s1 where h: "recv_message ?s2 message = Inr (False, message1, s1)"
      "same_session ?s2 s1"
    using recv_message_not_running [OF f(1) assms(3)] by blast
  have l: "request_loop ?s2 message 0 = Inr (None, message1, s1)"
    by (rule request_loop_failed [OF _ h(1)]) simp
  have sf: "sockfd s1 = sockfd s" "\<not> running s1"
    using h(2) f by (simp_all add: same_session_def)
  show ?thesis
    using request_closes [OF assms(1) l sf(1)] sf(2) by simp
qed


lemma request_loop_no_reply:
  assumes "running s" and "length message = sizeof_Message"
    and "inbound s = map (\<lambda>(ty, p). Data (frame ty p)) frames @ rest"
    and "\<forall>(ty, p) \<in> set frames. ty \<noteq> IP_REPLY \<and> length p \<le> DATA_MAX_LENGTH"
    and "rest = [] \<or> 2000000 \<le> unat elapsed + 5000 * length frames"
  shows "\<exists>message1 s1. request_loop s message elapsed = Inr (None, message1, s1)
           \<and> sockfd s1 = sockfd s"
  using assms
proof (induction frames arbitrary: s message elapsed)
  case Nil
  show ?case
  proof (cases "elapsed < REQUEST_TIMEOUT_USEC")
    case False
    then show ?thesis by (simp add: request_loop_timeout)
  next
    case True
    then have "unat elapsed < 2000000" by (simp add: word_less_nat_alt)
    then have "inbound s = []" using Nil.prems(3,5) by simp
    then have "recv_message s message =
        Inr (False, message, s\<lparr>trace := trace s @ [Connect (sockfd s), Connect (sockfd s)]\<rparr>)"
      using recv_message_silence [of s message] Nil.prems(1) by simp
    from request_loop_failed [OF True this] show ?thesis by simp
  qed
next
  case (Cons f fs)
  obtain ty p where f: "f = (ty, p)" by (cases f)
  show ?case
  proof (cases "elapsed < REQUEST_TIMEOUT_USEC")
    case False
    then show ?thesis by (simp add: request_loop_timeout)
  next
    case True
    then have ue: "unat elapsed < 2000000" by (simp add: word_less_nat_alt)
    have ue': "unat (elapsed + 5000) = unat elapsed + 5000"
      using ue by (simp add: unat_word_ariths)
    have lp: "length p \<le> DATA_MAX_LENGTH" and nr: "ty \<noteq> IP_REPLY"
      using Cons.prems(4) f by simp_all
    let ?rest = "map (\<lambda>(ty, p). Data (frame ty p)) fs @ rest"
    let ?m = "u32_bytes (of_nat (length p) + 5) @ ty # p @ drop (length p + 5) message"
    let ?s1 = "s\<lparr>inbound := ?rest\<rparr>"
    have inb: "inbound s = Data (frame ty p @ []) # ?rest" using Cons.prems(3) f by simp
    have dec: "recv_message s message = Inr (True, ?m, ?s1)"
      using recv_message_decodes [OF Cons.prems(1) Cons.prems(2) lp inb] by simp
    have mt: "msg_type ?m \<noteq> IP_REPLY" using decoded_fields(2) [OF lp] nr by simp
    have lm: "length ?m = sizeof_Message"
      using lp Cons.prems(2) by (simp add: length_u32_bytes)
    have step: "request_loop s message elapsed = request_loop ?s1 ?m (elapsed + 5000)"
      by (rule request_loop_other [OF True dec mt])
    have h5: "rest = [] \<or> 2000000 \<le> unat (elapsed + 5000) + 5000 * length fs"
      using Cons.prems(5) ue' by auto
    have h4: "\<forall>(ty, p) \<in> set fs. ty \<noteq> IP_REPLY \<and> length p \<le> DATA_MAX_LENGTH"
      using Cons.prems(4) by simp
    obtain message1 s1 where
      "request_loop ?s1 ?m (elapsed + 5000) = Inr (None, message1, s1)" "sockfd s1 = sockfd ?s1"
      using Cons.IH [of ?s1 ?m "elapsed + 5000"] Cons.prems(1) lm h4 h5 by auto
    then show ?thesis using step by simp
  qed
qed

text \<open>
  Claim C4. Let a session be open and let the peer send frames that are not address
  replies, each with at most 4096 bytes of payload; either nothing arrives after them,
  or there are at least 400 of them, which is when the loop's \<open>elapsed\<close>, 5000
  microseconds per decoded frame, has reached 2,000,000, whatever arrives later. Then
  \<open>request\<close> returns the empty string, \<open>ip_requesting\<close> is cleared, the last
  call on the socket is \<open>shutdown\<close> on the session's descriptor, and \<open>sockfd\<close> is
  \<open>-1\<close>. The polling loop always ends (\<open>request_loop\<close> is total).
\<close>
theorem request_without_reply_closes:
  assumes "sockfd s \<noteq> -1" and "length message = sizeof_Message"
    and "inbound s = map (\<lambda>(ty, p). Data (frame ty p)) frames @ rest"
    and "\<forall>(ty, p) \<in> set frames. ty \<noteq> IP_REPLY \<and> length p \<le> DATA_MAX_LENGTH"
    and "rest = [] \<or> 400 \<le> length frames"
  shows "\<exists>s'. request s message = Inr ([], s') \<and> sockfd s' = -1 \<and> \<not> ip_requesting s'
           \<and> trace s' \<noteq> [] \<and> last (trace s') = Shutdown (sockfd s)"
proof (cases "running s")
  case False
  then show ?thesis
    using request_not_running [OF assms(1) False, of message] assms(2) by auto
next
  case True
  let ?s2 = "snd (send_ip_request (s\<lparr>ip_requesting := True\<rparr>))"
  have f: "running ?s2" "sockfd ?s2 = sockfd s" "inbound ?s2 = inbound s"
    using True by (simp_all add: send_ip_request_state)
  have h5: "rest = [] \<or> 2000000 \<le> unat (0 :: 32 word) + 5000 * length frames"
    using assms(5) by auto
  obtain message1 s1 where l: "request_loop ?s2 message 0 = Inr (None, message1, s1)"
      "sockfd s1 = sockfd ?s2"
    using request_loop_no_reply [OF f(1) assms(2) _ assms(4) h5] f(3) assms(3) by auto
  show ?thesis
    using request_closes [OF assms(1) l(1)] l(2) f(2) by simp
qed

text \<open>A running session that receives one heartbeat and then nothing.\<close>

theorem request_without_reply_closes_witness:
  "\<exists>s'. request (initial_state\<lparr>sockfd := 3, running := True,
                                 inbound := [Data (frame HEARTBEAT [])]\<rparr>) zero_Message =
          Inr ([], s')
        \<and> sockfd s' = -1 \<and> \<not> ip_requesting s' \<and> trace s' \<noteq> []
        \<and> last (trace s') = Shutdown 3"
  using request_without_reply_closes
    [where s = "initial_state\<lparr>sockfd := 3, running := True,
                              inbound := [Data (frame HEARTBEAT [])]\<rparr>"
       and message = zero_Message and frames = "[(HEARTBEAT, [])]" and rest = "[]"]
  by (simp add: initial_state_def zero_Message_def)

lemma recv_message_header_only:
  assumes "\<not> running s" and "ip_requesting s" and "inbound s = Data bs # evs"
    and "4 < length bs" and "4 \<le> length message"
  shows "recv_message s message =
     Inr (False, poke message 0 (take 4 bs), s\<lparr>inbound := Data (drop 4 bs) # evs\<rparr>)"
proof -
  have "recv_raw s message 0 4 =
      Inr (4, poke message 0 (take 4 bs), s\<lparr>inbound := Data (drop 4 bs) # evs\<rparr>)"
    using recv_raw_chunk [of s bs evs 4 0 message] assms by simp
  then show ?thesis using assms(1) by (simp add: recv_message_def)
qed

lemma request_replies_when_running:
  assumes "sockfd s \<noteq> -1" and "running s" and "length message = sizeof_Message"
    and "length p \<le> DATA_MAX_LENGTH" and "0 \<in> set p"
    and "inbound s = Data (frame IP_REPLY p) # rest"
  shows "\<exists>s'. request s message = Inr (takeWhile (\<lambda>b. b \<noteq> 0) p, s') \<and> sockfd s' = sockfd s"
proof -
  let ?s2 = "snd (send_ip_request (s\<lparr>ip_requesting := True\<rparr>))"
  let ?m = "u32_bytes (of_nat (length p) + 5) @ IP_REPLY # p @ drop (length p + 5) message"
  let ?s1 = "?s2\<lparr>inbound := rest\<rparr>"
  have f: "running ?s2" "sockfd ?s2 = sockfd s"
      "inbound ?s2 = Data (frame IP_REPLY p @ []) # rest"
    using assms(2,6) by (simp_all add: send_ip_request_state)
  have dec: "recv_message ?s2 message = Inr (True, ?m, ?s1)"
    using recv_message_decodes [OF f(1) assms(3) assms(4) f(3)] by simp
  have mt: "msg_type ?m = IP_REPLY" by (rule decoded_fields(2) [OF assms(4)])
  have cs: "c_string (drop 5 ?m) = Inr (takeWhile (\<lambda>b. b \<noteq> 0) p)"
    using assms(5) by (simp add: c_string_def length_u32_bytes takeWhile_append1)
  have "request_loop ?s2 message 0 =
      Inr (Some (takeWhile (\<lambda>b. b \<noteq> 0) p), ?m, ?s1\<lparr>ip_requesting := False\<rparr>)"
    by (rule request_loop_reply [OF _ dec mt cs]) simp
  then show ?thesis using assms(1) f(2) by (simp add: request_def)
qed

text \<open>
  Claim C2 says that in awaiting-address mode (\<open>ip_requesting\<close> set, relay not
  started, so \<open>running\<close> is clear) an address reply on the stream is decoded and its
  payload returned. \<open>recv_raw\<close> and \<open>send_raw\<close> do admit that mode, but
  \<open>recv_message\<close> returns false whenever \<open>running\<close> is clear, after reading the
  length field. Here the peer answers the request at once with the address
  \<open>10.0.0.2\<close>: \<open>request\<close> reads four bytes, returns the empty string and closes
  the socket, leaving the reply's type and payload unread. With \<open>running\<close> set the
  same stream yields the address (lemma \<open>request_replies_when_running\<close>).
\<close>
theorem request_drops_address_reply:
  "request
     (initial_state\<lparr>sockfd := 3,
        inbound := [Data (frame IP_REPLY [49, 48, 46, 48, 46, 48, 46, 50, 0])]\<rparr>)
     zero_Message =
   Inr ([],
        initial_state\<lparr>sockfd := -1,
          inbound := [Data [IP_REPLY, 49, 48, 46, 48, 46, 48, 46, 50, 0]],
          trace := [Send 3 (frame IP_REQUEST []) 5, Shutdown 3]\<rparr>)"
proof -
  let ?addr = "[49, 48, 46, 48, 46, 48, 46, 50, 0] :: u8 list"
  let ?s = "initial_state\<lparr>sockfd := 3, inbound := [Data (frame IP_REPLY ?addr)]\<rparr>"
  let ?s2 = "snd (send_ip_request (?s\<lparr>ip_requesting := True\<rparr>))"
  have s2: "?s2 = ?s\<lparr>ip_requesting := True, trace := [Send 3 (frame IP_REQUEST []) 5]\<rparr>"
    by (simp add: send_ip_request_state)
       (simp add: initial_state_def sock_send_def length_frame)
  have dr: "drop 4 (frame IP_REPLY ?addr) = IP_REPLY # ?addr"
    by (simp add: frame_def length_u32_bytes)
  have rm: "recv_message ?s2 zero_Message =
      Inr (False, poke zero_Message 0 (take 4 (frame IP_REPLY ?addr)),
           ?s2\<lparr>inbound := [Data (IP_REPLY # ?addr)]\<rparr>)"
    using recv_message_header_only
      [of ?s2 "frame IP_REPLY ?addr" "[]" zero_Message]
    by (simp add: s2 dr) (simp add: initial_state_def length_frame zero_Message_def)
  have l: "request_loop ?s2 zero_Message 0 =
      Inr (None, poke zero_Message 0 (take 4 (frame IP_REPLY ?addr)),
           ?s2\<lparr>inbound := [Data (IP_REPLY # ?addr)]\<rparr>)"
    by (rule request_loop_failed [OF _ rm]) simp
  have "sockfd ?s \<noteq> -1" by simp
  from request_closes [OF this l] show ?thesis
    by (simp add: s2) (simp add: initial_state_def)
qed

end
